theory Spec2Isabelle
  imports Main "HOL-Library.Sublist"
begin

section \<open>Go strings and the standard-library functions the code calls\<close>

text \<open>
  A Go \<^verbatim>\<open>string\<close> is a sequence of bytes; it is modelled as a \<^typ>\<open>string\<close>
  (a list of 8-bit characters), so \<^const>\<open>length\<close> is Go's \<^verbatim>\<open>len\<close>.
  The functions of this section belong to the Go standard library (packages
  \<^verbatim>\<open>strings\<close>, \<^verbatim>\<open>unicode/utf8\<close>, \<^verbatim>\<open>regexp\<close>,
  \<^verbatim>\<open>path/filepath\<close>), in the Unix build (the file store uses
  \<^verbatim>\<open>syscall.Statfs\<close>): the separator is \<^verbatim>\<open>/\<close> and there are no volume names.
\<close>

definition byte :: "char \<Rightarrow> nat" where
  "byte c = of_char c"

definition strings_Contains :: "string \<Rightarrow> string \<Rightarrow> bool" where
  "strings_Contains s substr = sublist substr s"

definition strings_HasPrefix :: "string \<Rightarrow> string \<Rightarrow> bool" where
  "strings_HasPrefix s p = prefix p s"

definition strings_HasSuffix :: "string \<Rightarrow> string \<Rightarrow> bool" where
  "strings_HasSuffix s p = suffix p s"

fun strings_Join :: "string list \<Rightarrow> string \<Rightarrow> string" where
  "strings_Join [] sep = []"
| "strings_Join [e] sep = e"
| "strings_Join (e # es) sep = e @ sep @ strings_Join es sep"

subsection \<open>unicode/utf8\<close>

definition cont :: "nat \<Rightarrow> bool" where
  "cont b = (128 \<le> b \<and> b \<le> 191)"

text \<open>
  \<^verbatim>\<open>utf8.ValidString\<close>: every byte below 0x80 stands alone; a lead byte
  0xC2..0xF4 is followed by the continuation bytes of its row of Go's accept table
  (no overlong form, no surrogate, nothing above U+10FFFF).
\<close>

fun validBytes :: "nat list \<Rightarrow> bool" where
  "validBytes [] = True"
| "validBytes (b0 # r) =
     (if b0 < 128 then validBytes r
      else if 194 \<le> b0 \<and> b0 \<le> 223 then
        (case r of b1 # r1 \<Rightarrow> cont b1 \<and> validBytes r1 | _ \<Rightarrow> False)
      else if 224 \<le> b0 \<and> b0 \<le> 239 then
        (case r of b1 # b2 # r2 \<Rightarrow>
           (if b0 = 224 then 160 \<le> b1 \<and> b1 \<le> 191
            else if b0 = 237 then 128 \<le> b1 \<and> b1 \<le> 159
            else cont b1) \<and> cont b2 \<and> validBytes r2
         | _ \<Rightarrow> False)
      else if 240 \<le> b0 \<and> b0 \<le> 244 then
        (case r of b1 # b2 # b3 # r3 \<Rightarrow>
           (if b0 = 240 then 144 \<le> b1 \<and> b1 \<le> 191
            else if b0 = 244 then 128 \<le> b1 \<and> b1 \<le> 143
            else cont b1) \<and> cont b2 \<and> cont b3 \<and> validBytes r3
         | _ \<Rightarrow> False)
      else False)"

definition utf8_ValidString :: "string \<Rightarrow> bool" where
  "utf8_ValidString s = validBytes (map byte s)"

subsection \<open>strings.TrimSpace\<close>

text \<open>
  \<^verbatim>\<open>strings.TrimSpace\<close> removes the runes of \<^verbatim>\<open>unicode.IsSpace\<close> from both ends:
  tab, LF, VT, FF, CR, space, U+0085, U+00A0, U+1680, U+2000..U+200A, U+2028, U+2029,
  U+202F, U+205F, U+3000. \<open>spaceWidth\<close> is the number of bytes of the white-space
  rune that starts the byte sequence (0 when none does); \<open>spaceWidthRev\<close> reads
  the rune that ends the sequence, given its bytes last first, as
  \<^verbatim>\<open>utf8.DecodeLastRuneInString\<close> finds it.
\<close>

definition asciiSpace :: "nat \<Rightarrow> bool" where
  "asciiSpace b = (b = 9 \<or> b = 10 \<or> b = 11 \<or> b = 12 \<or> b = 13 \<or> b = 32)"

fun spaceWidth :: "nat list \<Rightarrow> nat" where
  "spaceWidth [] = 0"
| "spaceWidth (b0 # r) =
     (if asciiSpace b0 then 1
      else if b0 = 194 then
        (case r of b1 # _ \<Rightarrow> if b1 = 133 \<or> b1 = 160 then 2 else 0 | _ \<Rightarrow> 0)
      else if b0 = 225 then
        (case r of b1 # b2 # _ \<Rightarrow> if b1 = 154 \<and> b2 = 128 then 3 else 0 | _ \<Rightarrow> 0)
      else if b0 = 226 then
        (case r of b1 # b2 # _ \<Rightarrow>
           if b1 = 128 \<and> ((128 \<le> b2 \<and> b2 \<le> 138) \<or> b2 = 168 \<or> b2 = 169 \<or> b2 = 175) then 3
           else if b1 = 129 \<and> b2 = 159 then 3 else 0
         | _ \<Rightarrow> 0)
      else if b0 = 227 then
        (case r of b1 # b2 # _ \<Rightarrow> if b1 = 128 \<and> b2 = 128 then 3 else 0 | _ \<Rightarrow> 0)
      else 0)"

fun spaceWidthRev :: "nat list \<Rightarrow> nat" where
  "spaceWidthRev [] = 0"
| "spaceWidthRev (b # r) =
     (if b < 128 then (if asciiSpace b then 1 else 0)
      else (case r of
              b1 # r1 \<Rightarrow>
                if spaceWidth [b1, b] = 2 then 2
                else (case r1 of b2 # _ \<Rightarrow> if spaceWidth [b2, b1, b] = 3 then 3 else 0
                      | _ \<Rightarrow> 0)
            | _ \<Rightarrow> 0))"

function trimLeftSpace :: "string \<Rightarrow> string" where
  "trimLeftSpace s =
     (if spaceWidth (map byte s) = 0 then s
      else trimLeftSpace (drop (spaceWidth (map byte s)) s))"
  by pat_completeness auto
termination
proof (relation "measure length")
  show "wf (measure length)" by simp
next
  fix s :: string
  define n where "n = spaceWidth (map byte s)"
  assume "spaceWidth (map byte s) \<noteq> 0"
  then have "0 < n"
    by (simp add: n_def)
  moreover have "spaceWidth bs \<le> length bs" for bs
    by (cases bs) (auto split: list.splits)
  then have "n \<le> length s"
    unfolding n_def by (metis length_map)
  ultimately have "length (drop n s) < length s"
    by simp
  then show "(drop (spaceWidth (map byte s)) s, s) \<in> measure length"
    by (simp add: n_def)
qed

function trimRightSpaceRev :: "string \<Rightarrow> string" where
  "trimRightSpaceRev r =
     (if spaceWidthRev (map byte r) = 0 then r
      else trimRightSpaceRev (drop (spaceWidthRev (map byte r)) r))"
  by pat_completeness auto
termination
proof (relation "measure length")
  show "wf (measure length)" by simp
next
  fix r :: string
  define n where "n = spaceWidthRev (map byte r)"
  assume "spaceWidthRev (map byte r) \<noteq> 0"
  then have "0 < n"
    by (simp add: n_def)
  moreover have "spaceWidthRev bs \<le> length bs" for bs
    by (cases bs) (auto split: list.splits)
  then have "n \<le> length r"
    unfolding n_def by (metis length_map)
  ultimately have "length (drop n r) < length r"
    by simp
  then show "(drop (spaceWidthRev (map byte r)) r, r) \<in> measure length"
    by (simp add: n_def)
qed

definition strings_TrimSpace :: "string \<Rightarrow> string" where
  "strings_TrimSpace s = rev (trimRightSpaceRev (rev (trimLeftSpace s)))"

subsection \<open>strings.Trim, strings.SplitN, strings.ToUpper, strings.ToLower\<close>

text \<open>\<^verbatim>\<open>strings.Trim(s, cutset)\<close> for a cutset of ASCII characters.\<close>

definition strings_Trim :: "string \<Rightarrow> string \<Rightarrow> string" where
  "strings_Trim s cutset =
     rev (dropWhile (\<lambda>c. c \<in> set cutset) (rev (dropWhile (\<lambda>c. c \<in> set cutset) s)))"

text \<open>\<^verbatim>\<open>strings.SplitN(s, ".", 2)[0]\<close>: the text before the first dot.\<close>

definition beforeFirstDot :: "string \<Rightarrow> string" where
  "beforeFirstDot s = takeWhile (\<lambda>c. c \<noteq> CHR ''.'') s"

definition isASCII :: "string \<Rightarrow> bool" where
  "isASCII s = (\<forall>c \<in> set s. byte c < 128)"

definition asciiUpper :: "char \<Rightarrow> char" where
  "asciiUpper c = (if 97 \<le> byte c \<and> byte c \<le> 122 then char_of (byte c - 32) else c)"

definition asciiLower :: "char \<Rightarrow> char" where
  "asciiLower c = (if 65 \<le> byte c \<and> byte c \<le> 90 then char_of (byte c + 32) else c)"

text \<open>
  \<^verbatim>\<open>strings.ToUpper\<close> and \<^verbatim>\<open>strings.ToLower\<close> have a branch for strings of
  ASCII bytes only, which is modelled in full. On any other string they return
  \<^verbatim>\<open>strings.Map(unicode.ToUpper, s)\<close> (resp. \<^verbatim>\<open>ToLower\<close>), which reads the case
  tables of package \<^verbatim>\<open>unicode\<close>; that branch is the parameter \<open>U\<close>.
\<close>

record unicode_tables =
  mapToUpper :: "string \<Rightarrow> string"
  mapToLower :: "string \<Rightarrow> string"

definition strings_ToUpper :: "unicode_tables \<Rightarrow> string \<Rightarrow> string" where
  "strings_ToUpper U s = (if isASCII s then map asciiUpper s else mapToUpper U s)"

definition strings_ToLower :: "unicode_tables \<Rightarrow> string \<Rightarrow> string" where
  "strings_ToLower U s = (if isASCII s then map asciiLower s else mapToLower U s)"

subsection \<open>regexp\<close>

text \<open>
  The character class of \<^verbatim>\<open>unsafeChars\<close>: the characters
  \<^verbatim>\<open>< > : " / \ | ? *\<close>, the space and the bytes 0x00 to 0x1f (by byte value: 60, 62,
  58, 34, 47, 92, 124, 63, 42, 32 and 0..31). It holds ASCII characters only, and
  \<^verbatim>\<open>SanitizeFilename\<close> applies it to valid UTF-8, where a byte below 0x80 is always
  a character of its own: replacing the matches is a map over the bytes.
\<close>

definition unsafeChar :: "char \<Rightarrow> bool" where
  "unsafeChar c =
     (byte c \<in> {60, 62, 58, 34, 47, 92, 124, 63, 42, 32} \<or> byte c \<le> 31)"

definition replaceUnsafe :: "string \<Rightarrow> string" where
  "replaceUnsafe s = map (\<lambda>c. if unsafeChar c then CHR ''_'' else c) s"

text \<open>\<^verbatim>\<open>regexp.MustCompile(`_+`).ReplaceAllString(s, "_")\<close>.\<close>

fun collapseUnderscores :: "string \<Rightarrow> string" where
  "collapseUnderscores [] = []"
| "collapseUnderscores [c] = [c]"
| "collapseUnderscores (c # d # s) =
     (if c = CHR ''_'' \<and> d = CHR ''_'' then collapseUnderscores (d # s)
      else c # collapseUnderscores (d # s))"

subsection \<open>path/filepath\<close>

text \<open>
  \<^verbatim>\<open>filepath.Ext\<close>: the suffix that starts at the last dot of the last path element,
  empty when that element has no dot. \<open>extRev\<close> scans the reversed path as the loop
  of the library scans from the end.
\<close>

fun extRev :: "string \<Rightarrow> string \<Rightarrow> string" where
  "extRev [] acc = []"
| "extRev (c # r) acc =
     (if c = CHR ''/'' then []
      else if c = CHR ''.'' then c # acc
      else extRev r (c # acc))"

definition filepath_Ext :: "string \<Rightarrow> string" where
  "filepath_Ext p = extRev (rev p) []"

text \<open>
  \<^verbatim>\<open>filepath.Clean\<close> works on the elements between separators. \<open>splitSep\<close> is
  \<^verbatim>\<open>strings.Split(p, "/")\<close>, \<open>joinSep\<close> is \<^verbatim>\<open>strings.Join(elems, "/")\<close>.
  \<open>cleanStep\<close> treats one element, given the elements already written (last first):
  an empty element and \<^verbatim>\<open>.\<close> are dropped; \<^verbatim>\<open>..\<close> removes the element written last
  when that is a name, is dropped at the root of a rooted path, and is kept otherwise
  (a leading run of \<^verbatim>\<open>..\<close> in a relative path); a name is written. The result is
  \<^verbatim>\<open>.\<close> when nothing is written for a relative path.
\<close>

fun splitSep :: "string \<Rightarrow> string list" where
  "splitSep [] = [[]]"
| "splitSep (c # s) =
     (if c = CHR ''/'' then [] # splitSep s
      else (case splitSep s of [] \<Rightarrow> [[c]] | e # es \<Rightarrow> (c # e) # es))"

abbreviation joinSep :: "string list \<Rightarrow> string" where
  "joinSep elems \<equiv> strings_Join elems ''/''"

definition cleanStep :: "bool \<Rightarrow> string list \<Rightarrow> string \<Rightarrow> string list" where
  "cleanStep rooted out e =
     (if e = [] \<or> e = ''.'' then out
      else if e = ''..'' then
        (case out of
           [] \<Rightarrow> if rooted then [] else [''..'']
         | t # out' \<Rightarrow> if t = ''..'' then ''..'' # out else out')
      else e # out)"

definition filepath_Clean :: "string \<Rightarrow> string" where
  "filepath_Clean p =
     (if p = [] then ''.''
      else
        (let rooted = (hd p = CHR ''/'');
             out = foldl (cleanStep rooted) [] (splitSep p)
         in if rooted then CHR ''/'' # joinSep (rev out)
            else if out = [] then ''.''
            else joinSep (rev out)))"

text \<open>\<^verbatim>\<open>filepath.Join\<close>: the elements from the first non-empty one on, joined and cleaned.\<close>

definition filepath_Join :: "string list \<Rightarrow> string" where
  "filepath_Join elems =
     (case dropWhile (\<lambda>e. e = []) elems of
        [] \<Rightarrow> []
      | es \<Rightarrow> filepath_Clean (joinSep es))"

definition filepath_IsAbs :: "string \<Rightarrow> bool" where
  "filepath_IsAbs p = strings_HasPrefix p ''/''"

text \<open>\<^verbatim>\<open>filepath.Base\<close> and \<^verbatim>\<open>filepath.Dir\<close>.\<close>

definition filepath_Base :: "string \<Rightarrow> string" where
  "filepath_Base p =
     (if p = [] then ''.''
      else
        (let q = dropWhile (\<lambda>c. c = CHR ''/'') (rev p);
             b = rev (takeWhile (\<lambda>c. c \<noteq> CHR ''/'') q)
         in if b = [] then ''/'' else b))"

definition filepath_Dir :: "string \<Rightarrow> string" where
  "filepath_Dir p = filepath_Clean (rev (dropWhile (\<lambda>c. c \<noteq> CHR ''/'') (rev p)))"

subsection \<open>Errors\<close>

datatype syscall =
    SysStat | SysMkdirAll | SysCreateTemp | SysWrite | SysSync | SysClose | SysChmod
  | SysRename | SysRemove

datatype error =
    ErrPathTraversal
  | ErrInvalidFilename
  | ErrUnsafeCharacters
  | ErrFilenameTooLong
  | ErrEmptyFilename
  | Wrap string error
  | Errorf string
  | ValidationError string error
  | PayloadNil
  | FieldRequired string
  | DataRequired
  | DataEmpty
  | InvalidUTF8 string
  | UnsafeCharactersIn string
  | TooShort string nat int
  | TooLong string nat int
  | NotSerializable error
  | DataTooLarge nat int
  | NestingTooDeep nat nat
  | StringTooLong nat nat
  | InvalidUTF8String
  | UnsafeCharactersInString
  | TooManyKeys nat nat
  | KeyTooLong string
  | InvalidUTF8Key string
  | InObjectKey string error
  | ArrayTooLong nat nat
  | InArrayIndex nat error
  | UnsupportedType
  | ReservedFieldName string
  | SourceSpaces
  | SourceConsecutiveDots
  | SourceUnsafeChar string
  | TypeSpaces
  | TypeUnsafeChar string
  | TypeDotEnds
  | TypeConsecutiveDots
  | FileError string string error
  | SizeExceeds nat int
  | NotADirectory string
  | ErrNotExist
  | ErrExist
  | ErrNotDir
  | OSError syscall

text \<open>
  The first five are the sentinel errors of package \<^verbatim>\<open>security\<close>. \<open>Wrap msg e\<close> is
  \<^verbatim>\<open>fmt.Errorf("msg ...: %w", e)\<close> and \<open>Errorf msg\<close> an error made by
  \<^verbatim>\<open>fmt.Errorf\<close> or \<^verbatim>\<open>errors.New\<close> that wraps nothing, with the text of the
  source's format string. The errors of the validator have a constructor for each
  \<^verbatim>\<open>fmt.Errorf\<close> of the source, with the values the source formats into
  the message: \<open>ValidationError field e\<close> is \<^verbatim>\<open>errors.WrapValidationError(field, e)\<close>,
  \<open>InObjectKey key e\<close> and \<open>InArrayIndex i e\<close> are the two wrappers of the data walk.
  \<open>FileError operation path e\<close> is \<^verbatim>\<open>errors.WrapFileError(operation, path, e)\<close>.
  \<open>OSError c\<close> is the error with which the operating system fails the call \<open>c\<close>;
  \<open>ErrNotExist\<close> and \<open>ErrExist\<close> are the two errors of package \<^verbatim>\<open>os\<close> that the
  code or the library tells apart, and \<open>ErrNotDir\<close> is the error \<^verbatim>\<open>ENOTDIR\<close> of a
  path that leads through a regular file. \<open>cause\<close> is the innermost error, the one
  the wrappers wrap.
\<close>

fun cause :: "error \<Rightarrow> error" where
  "cause (Wrap msg e) = cause e"
| "cause (ValidationError field e) = cause e"
| "cause (NotSerializable e) = cause e"
| "cause (InObjectKey key e) = cause e"
| "cause (InArrayIndex i e) = cause e"
| "cause (FileError operation path e) = cause e"
| "cause e = e"

subsection \<open>filepath.Abs and filepath.Rel\<close>

text \<open>
  \<^verbatim>\<open>filepath.Abs\<close> asks the operating system for the working directory when the
  path is relative; \<open>getwd\<close> is the result of that call (\<^verbatim>\<open>os.Getwd\<close>).
\<close>

definition filepath_Abs :: "error + string \<Rightarrow> string \<Rightarrow> error + string" where
  "filepath_Abs getwd p =
     (if filepath_IsAbs p then Inr (filepath_Clean p)
      else (case getwd of Inl e \<Rightarrow> Inl e | Inr wd \<Rightarrow> Inr (filepath_Join [wd, p])))"

text \<open>
  The loop of \<^verbatim>\<open>filepath.Rel\<close> that skips the leading elements base and target
  share. Its arguments are \<^verbatim>\<open>base[b0:]\<close> and \<^verbatim>\<open>targ[t0:]\<close>; it returns
  \<^verbatim>\<open>base[b0:bi]\<close>, \<^verbatim>\<open>base[b0:]\<close> and \<^verbatim>\<open>targ[t0:]\<close> as they are when the
  loop ends (the first is empty unless the loop ended at two different elements).
\<close>

function relLoop :: "string \<Rightarrow> string \<Rightarrow> string \<times> string \<times> string" where
  "relLoop base targ =
     (if base = [] \<or> targ = [] then ([], base, targ)
      else
        (let be = takeWhile (\<lambda>c. c \<noteq> CHR ''/'') base;
             te = takeWhile (\<lambda>c. c \<noteq> CHR ''/'') targ
         in if te \<noteq> be then (be, base, targ)
            else relLoop (drop (Suc (length be)) base) (drop (Suc (length te)) targ)))"
  by pat_completeness auto
termination
  by (relation "measure (\<lambda>(base, targ). length base)") auto

definition filepath_Rel :: "string \<Rightarrow> string \<Rightarrow> error + string" where
  "filepath_Rel basepath targpath =
     (let base = filepath_Clean basepath; targ = filepath_Clean targpath in
      if targ = base then Inr ''.''
      else
        (let base = (if base = ''.'' then [] else base);
             baseSlashed = (base \<noteq> [] \<and> hd base = CHR ''/'');
             targSlashed = (targ \<noteq> [] \<and> hd targ = CHR ''/'')
         in if baseSlashed \<noteq> targSlashed then Inl (Errorf ''Rel: cannot make relative'')
            else
              (case relLoop base targ of
                 (be, brest, trest) \<Rightarrow>
                   if be = ''..'' then Inl (Errorf ''Rel: cannot make relative'')
                   else if brest \<noteq> [] then
                     Inr (''..'' @ concat (replicate (count_list brest CHR ''/'') ''/..'')
                          @ (if trest \<noteq> [] then CHR ''/'' # trest else []))
                   else Inr trest)))"

text \<open>\<^verbatim>\<open>hex.EncodeToString\<close>.\<close>

definition hexDigit :: "nat \<Rightarrow> char" where
  "hexDigit n = (if n < 10 then char_of (48 + n) else char_of (87 + n))"

definition hex_EncodeToString :: "string \<Rightarrow> string" where
  "hex_EncodeToString bs = concat (map (\<lambda>c. [hexDigit (byte c div 16), hexDigit (byte c mod 16)]) bs)"

section \<open>Package security\<close>

definition MaxFilenameLength :: nat where
  "MaxFilenameLength = 255"

definition MaxPathLength :: nat where
  "MaxPathLength = 4096"

definition reservedNames :: "string list" where
  "reservedNames =
     [''CON'', ''PRN'', ''AUX'', ''NUL'',
      ''COM1'', ''COM2'', ''COM3'', ''COM4'', ''COM5'', ''COM6'', ''COM7'', ''COM8'', ''COM9'',
      ''LPT1'', ''LPT2'', ''LPT3'', ''LPT4'', ''LPT5'', ''LPT6'', ''LPT7'', ''LPT8'', ''LPT9'']"

text \<open>The last step of \<^verbatim>\<open>SanitizeFilename\<close>: the length limit (lines 143 to 157).\<close>

definition enforceLength :: "string \<Rightarrow> string" where
  "enforceLength sanitized =
     (if length sanitized > MaxFilenameLength then
        (let ext = filepath_Ext sanitized in
         if length ext > 0 \<and> length ext < 10 then
           (let nameOnly = take (length sanitized - length ext) sanitized;
                maxNameLength = int MaxFilenameLength - int (length ext)
            in if maxNameLength > 0 then take (nat maxNameLength) nameOnly @ ext
               else take MaxFilenameLength sanitized)
         else take MaxFilenameLength sanitized)
      else sanitized)"

definition SanitizeFilename :: "unicode_tables \<Rightarrow> string \<Rightarrow> error + string" where
  "SanitizeFilename U filename =
     (if filename = [] then Inl ErrEmptyFilename
      else if \<not> utf8_ValidString filename then Inl ErrUnsafeCharacters
      else
        (let cleaned = strings_TrimSpace filename in
         if cleaned = [] then Inl ErrEmptyFilename
         else
           (let sanitized = strings_Trim (collapseUnderscores (replaceUnsafe cleaned)) ''_.'' in
            if sanitized = [] then Inl ErrInvalidFilename
            else
              (let name = strings_ToUpper U (beforeFirstDot sanitized);
                   sanitized2 = (if name \<in> set reservedNames then CHR ''_'' # sanitized
                                 else sanitized)
               in Inr (enforceLength sanitized2)))))"

definition ValidatePath :: "error + string \<Rightarrow> string \<Rightarrow> string \<Rightarrow> error option" where
  "ValidatePath getwd path baseDir =
     (if path = [] then Some ErrEmptyFilename
      else if strings_Contains path [CHR 0x00] then Some ErrUnsafeCharacters
      else if length path > MaxPathLength then Some (Wrap ''path too long'' ErrInvalidFilename)
      else
        (let cleaned = filepath_Clean path in
         if strings_Contains cleaned ''..'' then Some ErrPathTraversal
         else if baseDir \<noteq> [] then
           (let absPath = filepath_Join [baseDir, cleaned] in
            case filepath_Abs getwd baseDir of
              Inl e \<Rightarrow> Some (Wrap ''failed to resolve base directory'' e)
            | Inr absBase \<Rightarrow>
                (case filepath_Abs getwd absPath of
                   Inl e \<Rightarrow> Some (Wrap ''failed to resolve file path'' e)
                 | Inr absFile \<Rightarrow>
                     (case filepath_Rel absBase absFile of
                        Inl e \<Rightarrow> Some ErrPathTraversal
                      | Inr relPath \<Rightarrow>
                          if strings_HasPrefix relPath ''..'' then Some ErrPathTraversal
                          else None)))
         else None))"

text \<open>
  \<^verbatim>\<open>GenerateSecureFilename\<close>; \<open>random\<close> is the result of \<^verbatim>\<open>rand.Read\<close> on a
  buffer of \<^verbatim>\<open>MinRandomBytes\<close> bytes.
\<close>

definition GenerateSecureFilename ::
    "unicode_tables \<Rightarrow> error + string \<Rightarrow> string \<Rightarrow> string \<Rightarrow> error + string" where
  "GenerateSecureFilename U random pfx extension =
     (case (if pfx \<noteq> [] then SanitizeFilename U pfx else Inr pfx) of
        Inl e \<Rightarrow> Inl (Wrap ''invalid prefix'' e)
      | Inr pfx' \<Rightarrow>
          (case random of
             Inl e \<Rightarrow> Inl (Wrap ''failed to generate secure random bytes'' e)
           | Inr randomBytes \<Rightarrow>
               (let randomHex = hex_EncodeToString randomBytes;
                    parts = (if pfx' \<noteq> [] then [pfx'] else []) @ [randomHex];
                    filename = strings_Join parts ''_''
                in if extension \<noteq> [] then
                     (let cleanExt = (if strings_HasPrefix extension ''.'' then tl extension
                                      else extension)
                      in case SanitizeFilename U cleanExt of
                           Inl e \<Rightarrow> Inl (Wrap ''invalid extension'' e)
                         | Inr cleanExt' \<Rightarrow> Inr (filename @ ''.'' @ cleanExt'))
                   else Inr filename)))"

definition IsSecurePath ::
    "unicode_tables \<Rightarrow> error + string \<Rightarrow> string \<Rightarrow> string \<Rightarrow> error option" where
  "IsSecurePath U getwd fullPath baseDir =
     (case ValidatePath getwd fullPath baseDir of
        Some err \<Rightarrow> Some err
      | None \<Rightarrow>
          (case SanitizeFilename U (filepath_Base fullPath) of
             Inl err \<Rightarrow> Some (Wrap ''invalid filename in path'' err)
           | Inr _ \<Rightarrow> None))"

text \<open>What a sanitized name may hold: no separator, no NUL, no control byte.\<close>

definition safeNameChar :: "char \<Rightarrow> bool" where
  "safeNameChar c = (c \<noteq> CHR ''/'' \<and> c \<noteq> CHR 0x5C \<and> c \<noteq> CHR 0x00 \<and> \<not> byte c \<le> 31)"

section \<open>Package model: the payload\<close>

text \<open>
  A value of the data tree is a Go \<^verbatim>\<open>interface{}\<close>. The validator looks at its
  dynamic type only, and reads the contents of strings, maps and slices; so the model
  keeps those three with their contents and the other dynamic types by the branch of
  the type switch they take: \<open>VPrimitive\<close> is a \<^verbatim>\<open>float64\<close>, \<^verbatim>\<open>int\<close>,
  \<^verbatim>\<open>int64\<close>, \<^verbatim>\<open>bool\<close> or \<^verbatim>\<open>nil\<close>; \<open>VNumericKind\<close> a value of
  another integer or floating-point kind; \<open>VUnsupported\<close> a value of any other type.
  A map is the list of its entries in the order in which \<^verbatim>\<open>range\<close> visits them in
  the run at hand (Go leaves that order open), so a statement about every list is a
  statement about every order.
\<close>

datatype gvalue =
    VString string
  | VMap "(string \<times> gvalue) list"
  | VSlice "gvalue list"
  | VPrimitive
  | VNumericKind
  | VUnsupported

text \<open>
  A \<^verbatim>\<open>time.Time\<close> is an instant: the number of nanoseconds since the zero time
  (January 1, year 1, 00:00:00 UTC), which is what \<^verbatim>\<open>IsZero\<close> tests.
\<close>

type_synonym time = int

definition IsZero :: "time \<Rightarrow> bool" where
  "IsZero t = (t = 0)"

text \<open>The field \<open>Data\<close> is a map that may be \<^verbatim>\<open>nil\<close>: \<open>None\<close>.\<close>

record WebhookPayload =
  Title :: string
  Description :: string
  Data :: "(string \<times> gvalue) list option"
  ID :: string
  Timestamp :: time
  Source :: string
  Type :: string

section \<open>Package config\<close>

record Config =
  StoragePath :: string
  MaxFileSize :: int
  MaxTitleLength :: int
  MaxDescLength :: int
  MaxDataSize :: int

section \<open>Package service: the payload validator\<close>

definition MaxNestingDepth :: nat where
  "MaxNestingDepth = 5"

definition MaxStringLength :: nat where
  "MaxStringLength = 10000"

definition MaxArrayLength :: nat where
  "MaxArrayLength = 1000"

definition MaxObjectKeys :: nat where
  "MaxObjectKeys = 100"

definition reservedFieldNames :: "string list" where
  "reservedFieldNames =
     [''id'', ''timestamp'', ''title'', ''description'', ''source'', ''type'']"

text \<open>
  \<^verbatim>\<open>containsUnsafeCharacters\<close> ranges over the runes of the string. A byte below
  0x80 is never part of a longer UTF-8 sequence, whether the string is valid or not,
  so each such byte is visited as a rune of its own, and every other rune (the
  replacement character included) is at least 0x80: the test is a test on the bytes.
\<close>

definition containsUnsafeCharacters :: "string \<Rightarrow> bool" where
  "containsUnsafeCharacters s =
     (\<exists>c \<in> set s. byte c = 0 \<or> (byte c < 32 \<and> byte c \<noteq> 9 \<and> byte c \<noteq> 10 \<and> byte c \<noteq> 13))"

definition validateString ::
    "string \<Rightarrow> string \<Rightarrow> int \<Rightarrow> int \<Rightarrow> bool \<Rightarrow> error option" where
  "validateString fieldName val minLen maxLen required =
     (if required \<and> strings_TrimSpace val = [] then
        Some (ValidationError fieldName (FieldRequired fieldName))
      else if \<not> utf8_ValidString val then
        Some (ValidationError fieldName (InvalidUTF8 fieldName))
      else if containsUnsafeCharacters val then
        Some (ValidationError fieldName (UnsafeCharactersIn fieldName))
      else if int (length val) < minLen then
        Some (ValidationError fieldName (TooShort fieldName (length val) minLen))
      else if int (length val) > maxLen then
        Some (ValidationError fieldName (TooLong fieldName (length val) maxLen))
      else None)"

text \<open>
  \<^verbatim>\<open>validateDataStructure\<close>, with its two loops: \<open>validateEntries\<close> is the
  \<^verbatim>\<open>range\<close> over the entries of a map, \<open>validateElements\<close> the \<^verbatim>\<open>range\<close> over
  the elements of a slice from index \<open>i\<close> on.
\<close>

fun validateDataStructure :: "gvalue \<Rightarrow> nat \<Rightarrow> error option"
  and validateEntries :: "(string \<times> gvalue) list \<Rightarrow> nat \<Rightarrow> error option"
  and validateElements :: "gvalue list \<Rightarrow> nat \<Rightarrow> nat \<Rightarrow> error option" where
  "validateDataStructure v depth =
     (if depth > MaxNestingDepth then Some (NestingTooDeep depth MaxNestingDepth)
      else
        (case v of
           VString val \<Rightarrow>
             if length val > MaxStringLength then Some (StringTooLong (length val) MaxStringLength)
             else if \<not> utf8_ValidString val then Some InvalidUTF8String
             else if containsUnsafeCharacters val then Some UnsafeCharactersInString
             else None
         | VMap val \<Rightarrow>
             if length val > MaxObjectKeys then Some (TooManyKeys (length val) MaxObjectKeys)
             else validateEntries val depth
         | VSlice val \<Rightarrow>
             if length val > MaxArrayLength then Some (ArrayTooLong (length val) MaxArrayLength)
             else validateElements val 0 depth
         | VPrimitive \<Rightarrow> None
         | VNumericKind \<Rightarrow> None
         | VUnsupported \<Rightarrow> Some UnsupportedType))"
| "validateEntries [] depth = None"
| "validateEntries ((key, subValue) # rest) depth =
     (if length key > 100 then Some (KeyTooLong key)
      else if \<not> utf8_ValidString key then Some (InvalidUTF8Key key)
      else
        (case validateDataStructure subValue (depth + 1) of
           Some err \<Rightarrow> Some (InObjectKey key err)
         | None \<Rightarrow> validateEntries rest depth))"
| "validateElements [] i depth = None"
| "validateElements (element # rest) i depth =
     (case validateDataStructure element (depth + 1) of
        Some err \<Rightarrow> Some (InArrayIndex i err)
      | None \<Rightarrow> validateElements rest (i + 1) depth)"

text \<open>
  \<^verbatim>\<open>validateDataField\<close>. \<open>marshalled\<close> is the result of the call
  \<^verbatim>\<open>json.Marshal(data)\<close> to the standard library: the serialized bytes or an error.
\<close>

definition validateDataField ::
    "Config \<Rightarrow> error + string \<Rightarrow> (string \<times> gvalue) list \<Rightarrow> error option" where
  "validateDataField cfg marshalled data =
     (case marshalled of
        Inl err \<Rightarrow> Some (ValidationError ''data'' (NotSerializable err))
      | Inr jsonData \<Rightarrow>
          if int (length jsonData) > MaxDataSize cfg then
            Some (ValidationError ''data'' (DataTooLarge (length jsonData) (MaxDataSize cfg)))
          else
            (case validateDataStructure (VMap data) 0 of
               Some err \<Rightarrow> Some (ValidationError ''data'' err)
             | None \<Rightarrow> None))"

definition dangerousChars :: "string list" where
  "dangerousChars = [''<'', ''>'', [CHR 0x22], [CHR 0x27], ''&'', '';'', ''|'']"

text \<open>The loop over \<^verbatim>\<open>dangerousChars\<close>: the first of them that the text contains.\<close>

fun firstContained :: "string \<Rightarrow> string list \<Rightarrow> string option" where
  "firstContained s [] = None"
| "firstContained s (ch # rest) =
     (if strings_Contains s ch then Some ch else firstContained s rest)"

definition validateSourceFormat :: "string \<Rightarrow> error option" where
  "validateSourceFormat source =
     (if strings_Contains source '' '' then Some SourceSpaces
      else if strings_Contains source ''..'' then Some SourceConsecutiveDots
      else
        (case firstContained source dangerousChars of
           Some ch \<Rightarrow> Some (SourceUnsafeChar ch)
         | None \<Rightarrow> None))"

definition validateTypeFormat :: "string \<Rightarrow> error option" where
  "validateTypeFormat eventType =
     (if strings_Contains eventType '' '' then Some TypeSpaces
      else
        (case firstContained eventType dangerousChars of
           Some ch \<Rightarrow> Some (TypeUnsafeChar ch)
         | None \<Rightarrow>
             if strings_HasPrefix eventType ''.'' \<or> strings_HasSuffix eventType ''.'' then
               Some TypeDotEnds
             else if strings_Contains eventType ''..'' then Some TypeConsecutiveDots
             else None))"

text \<open>
  The loop of \<^verbatim>\<open>validateBusinessRules\<close> over the keys of \<^verbatim>\<open>payload.Data\<close>, in the
  order of the iteration.
\<close>

fun reservedFieldLoop :: "unicode_tables \<Rightarrow> string list \<Rightarrow> error option" where
  "reservedFieldLoop U [] = None"
| "reservedFieldLoop U (fieldName # rest) =
     (if strings_ToLower U fieldName \<in> set reservedFieldNames then
        Some (ValidationError ''data'' (ReservedFieldName fieldName))
      else reservedFieldLoop U rest)"

definition dataKeys :: "WebhookPayload \<Rightarrow> string list" where
  "dataKeys payload = (case Data payload of None \<Rightarrow> [] | Some m \<Rightarrow> map fst m)"

definition validateBusinessRules :: "unicode_tables \<Rightarrow> WebhookPayload \<Rightarrow> error option" where
  "validateBusinessRules U payload =
     (case reservedFieldLoop U (dataKeys payload) of
        Some err \<Rightarrow> Some err
      | None \<Rightarrow>
          (case (if Source payload \<noteq> [] then validateSourceFormat (Source payload) else None) of
             Some err \<Rightarrow> Some (ValidationError ''source'' err)
           | None \<Rightarrow>
               (case (if Type payload \<noteq> [] then validateTypeFormat (Type payload) else None) of
                  Some err \<Rightarrow> Some (ValidationError ''type'' err)
                | None \<Rightarrow> None)))"

definition ValidateStructure :: "WebhookPayload option \<Rightarrow> error option" where
  "ValidateStructure p =
     (case p of
        None \<Rightarrow> Some (ValidationError ''payload'' PayloadNil)
      | Some payload \<Rightarrow>
          if strings_TrimSpace (Title payload) = [] then
            Some (ValidationError ''title'' (FieldRequired ''title''))
          else
            (case Data payload of
               None \<Rightarrow> Some (ValidationError ''data'' DataRequired)
             | Some m \<Rightarrow>
                 if length m = 0 then Some (ValidationError ''data'' DataEmpty) else None))"

text \<open>
  \<^verbatim>\<open>ValidateContent\<close>. It hands \<^verbatim>\<open>payload.Data\<close> to \<^verbatim>\<open>validateDataField\<close>
  as it is; a \<^verbatim>\<open>nil\<close> map is walked as a map without entries. \<open>marshalled\<close> is
  the result of \<^verbatim>\<open>json.Marshal(payload.Data)\<close>, as above.
\<close>

definition ValidateContent ::
    "Config \<Rightarrow> error + string \<Rightarrow> WebhookPayload option \<Rightarrow> error option" where
  "ValidateContent cfg marshalled p =
     (case p of
        None \<Rightarrow> Some (ValidationError ''payload'' PayloadNil)
      | Some payload \<Rightarrow>
          (case validateString ''title'' (Title payload) 1 (MaxTitleLength cfg) True of
             Some err \<Rightarrow> Some err
           | None \<Rightarrow>
          (case (if Description payload \<noteq> [] then
                   validateString ''description'' (Description payload) 0 (MaxDescLength cfg) False
                 else None) of
             Some err \<Rightarrow> Some err
           | None \<Rightarrow>
          (case (if Source payload \<noteq> [] then
                   validateString ''source'' (Source payload) 0 128 False
                 else None) of
             Some err \<Rightarrow> Some err
           | None \<Rightarrow>
          (case (if Type payload \<noteq> [] then
                   validateString ''type'' (Type payload) 0 32 False
                 else None) of
             Some err \<Rightarrow> Some err
           | None \<Rightarrow>
               validateDataField cfg marshalled
                 (case Data payload of None \<Rightarrow> [] | Some m \<Rightarrow> m))))))"

definition Validate ::
    "Config \<Rightarrow> unicode_tables \<Rightarrow> error + string \<Rightarrow> WebhookPayload option
      \<Rightarrow> error option" where
  "Validate cfg U marshalled p =
     (case p of
        None \<Rightarrow> Some (ValidationError ''payload'' PayloadNil)
      | Some payload \<Rightarrow>
          (case ValidateStructure p of
             Some err \<Rightarrow> Some err
           | None \<Rightarrow>
               (case ValidateContent cfg marshalled p of
                  Some err \<Rightarrow> Some err
                | None \<Rightarrow> validateBusinessRules U payload)))"

subsection \<open>Measures of a data tree\<close>

text \<open>
  The nesting of a tree, in the sense of the specification's glossary: the number of
  container (object or array) boundaries crossed to reach the value that lies deepest.
  The value itself is at 0; a value inside a container is one boundary further than
  the container; a container without content has nothing to reach inside it.
\<close>

fun nesting :: "gvalue \<Rightarrow> nat"
  and nestingEntries :: "(string \<times> gvalue) list \<Rightarrow> nat"
  and nestingElements :: "gvalue list \<Rightarrow> nat" where
  "nesting (VMap m) = nestingEntries m"
| "nesting (VSlice l) = nestingElements l"
| "nesting (VString s) = 0"
| "nesting VPrimitive = 0"
| "nesting VNumericKind = 0"
| "nesting VUnsupported = 0"
| "nestingEntries [] = 0"
| "nestingEntries ((k, v) # rest) = max (Suc (nesting v)) (nestingEntries rest)"
| "nestingElements [] = 0"
| "nestingElements (v # rest) = max (Suc (nesting v)) (nestingElements rest)"

text \<open>All the keys of a tree, at every level.\<close>

fun allKeys :: "gvalue \<Rightarrow> string list"
  and entriesKeys :: "(string \<times> gvalue) list \<Rightarrow> string list"
  and elementsKeys :: "gvalue list \<Rightarrow> string list" where
  "allKeys (VMap m) = entriesKeys m"
| "allKeys (VSlice l) = elementsKeys l"
| "allKeys (VString s) = []"
| "allKeys VPrimitive = []"
| "allKeys VNumericKind = []"
| "allKeys VUnsupported = []"
| "entriesKeys [] = []"
| "entriesKeys ((k, v) # rest) = k # allKeys v @ entriesKeys rest"
| "elementsKeys [] = []"
| "elementsKeys (v # rest) = allKeys v @ elementsKeys rest"

text \<open>
  The limits on the values of a tree, keys apart: every string value is at most
  \<open>MaxStringLength\<close> bytes of valid UTF-8 without unsafe characters, every object has
  at most \<open>MaxObjectKeys\<close> entries, every array at most \<open>MaxArrayLength\<close> elements, and
  no value is of an unsupported type.
\<close>

fun valuesOk :: "gvalue \<Rightarrow> bool"
  and entriesOk :: "(string \<times> gvalue) list \<Rightarrow> bool"
  and elementsOk :: "gvalue list \<Rightarrow> bool" where
  "valuesOk (VString s) =
     (length s \<le> MaxStringLength \<and> utf8_ValidString s \<and> \<not> containsUnsafeCharacters s)"
| "valuesOk (VMap m) = (length m \<le> MaxObjectKeys \<and> entriesOk m)"
| "valuesOk (VSlice l) = (length l \<le> MaxArrayLength \<and> elementsOk l)"
| "valuesOk VPrimitive = True"
| "valuesOk VNumericKind = True"
| "valuesOk VUnsupported = False"
| "entriesOk [] = True"
| "entriesOk ((k, v) # rest) = (valuesOk v \<and> entriesOk rest)"
| "elementsOk [] = True"
| "elementsOk (v # rest) = (valuesOk v \<and> elementsOk rest)"

definition keyOk :: "string \<Rightarrow> bool" where
  "keyOk k = (length k \<le> 100 \<and> utf8_ValidString k)"

subsection \<open>Values used in examples\<close>

text \<open>
  The defaults of \<^verbatim>\<open>config.New\<close>; JSON text written with apostrophes for the double
  quotes; the Unicode tables where they are not consulted (the examples are ASCII);
  and the two payloads of the specification's scenario 6: objects nested so that the
  deepest value lies 5, respectively 6, levels down.
\<close>

definition defaultConfig :: Config where
  "defaultConfig =
     \<lparr>StoragePath = ''./storage'', MaxFileSize = 10 * 1024 * 1024, MaxTitleLength = 64,
      MaxDescLength = 512, MaxDataSize = 5 * 1024 * 1024\<rparr>"

definition jsonText :: "string \<Rightarrow> string" where
  "jsonText s = map (\<lambda>c. if c = CHR 0x27 then CHR 0x22 else c) s"

definition asciiOnly :: unicode_tables where
  "asciiOnly = \<lparr>mapToUpper = (\<lambda>s. s), mapToLower = (\<lambda>s. s)\<rparr>"

definition fiveLevels :: "(string \<times> gvalue) list" where
  "fiveLevels =
     [(''level1'', VMap [(''level2'', VMap [(''level3'', VMap [(''level4'',
        VMap [(''level5'', VString ''ok'')])])])])]"

definition sixLevels :: "(string \<times> gvalue) list" where
  "sixLevels =
     [(''level1'', VMap [(''level2'', VMap [(''level3'', VMap [(''level4'',
        VMap [(''level5'', VMap [(''level6'', VString ''too deep'')])])])])])]"

text \<open>
  A key is reserved when the code finds its lower-case form in \<open>reservedFieldNames\<close>:
  this is the case-insensitive comparison of \<^verbatim>\<open>validateBusinessRules\<close>.
\<close>

definition isReservedKey :: "unicode_tables \<Rightarrow> string \<Rightarrow> bool" where
  "isReservedKey U k = (strings_ToLower U k \<in> set reservedFieldNames)"

text \<open>The payload of scenario 1 of the specification, title \<^verbatim>\<open>X\<close> and data \<^verbatim>\<open>{"a":1}\<close>.\<close>

definition simplePayload :: WebhookPayload where
  "simplePayload =
     \<lparr>Title = ''X'', Description = [], Data = Some [(''a'', VPrimitive)], ID = [],
      Timestamp = 0, Source = [], Type = []\<rparr>"

section \<open>Package service: the file store\<close>

subsection \<open>What the file store gets from outside\<close>

text \<open>
  The file store calls the operating system and the library for values that no
  argument determines. They are gathered in an environment:
  \<^item> \<open>getwd\<close>, the result of \<^verbatim>\<open>os.Getwd\<close> (inside \<^verbatim>\<open>filepath.Abs\<close>);
  \<^item> \<open>uuidBytes\<close>, the 16 random bytes of \<^verbatim>\<open>uuid.New\<close> (which panics rather
    than returns when it cannot read them: the model starts from the bytes read);
  \<^item> \<open>now\<close>, the instant \<^verbatim>\<open>time.Now().UTC()\<close>;
  \<^item> \<open>formatTime\<close>, the library's \<^verbatim>\<open>Time.Format("2006-01-02_15-04-05")\<close>;
  \<^item> \<open>randomBytes\<close>, the result of \<^verbatim>\<open>rand.Read\<close> in \<^verbatim>\<open>GenerateSecureFilename\<close>;
  \<^item> \<open>marshalIndent\<close>, the result of \<^verbatim>\<open>json.MarshalIndent(payload, "", "  ")\<close>;
  \<^item> \<open>tempRandom\<close>, the random number that \<^verbatim>\<open>os.CreateTemp\<close> prints, in decimal,
    in place of the \<^verbatim>\<open>*\<close> of its pattern;
  \<^item> \<open>fails\<close>, the calls that the operating system fails in this run, and
    \<open>written\<close>, the number of bytes a failing \<^verbatim>\<open>Write\<close> has written before it fails;
  \<^item> \<open>tables\<close>, the case tables of package \<^verbatim>\<open>unicode\<close>.
\<close>

record environment =
  getwd :: "error + string"
  uuidBytes :: string
  now :: time
  formatTime :: "time \<Rightarrow> string"
  randomBytes :: "error + string"
  marshalIndent :: "error + string"
  tempRandom :: nat
  fails :: "syscall \<Rightarrow> bool"
  written :: nat
  tables :: unicode_tables

subsection \<open>The file system\<close>

text \<open>
  The file system, as far as the file store uses it: the directories that exist and
  the regular files with their content and permission bits. A path names a file or a
  directory by its text (there are no links), and the paths given to the calls are
  cleaned ones; \<open>ancestors\<close> are the directories a path leads through, its prefixes
  up to a separator (the root apart). Each call either fails, when \<open>fails\<close>
  says so or when the state does not allow it, or has its effect; a call that fails
  leaves the state as it is, except a failing write, which may have written a part of
  the data.
\<close>

record filesystem =
  dirs :: "string set"
  files :: "string \<rightharpoonup> string \<times> nat"

datatype fileinfo = IsDir | IsRegular

definition ancestors :: "string \<Rightarrow> string list" where
  "ancestors path =
     map (\<lambda>i. take i path) (filter (\<lambda>i. path ! i = CHR ''/'') [1..<length path])"

text \<open>
  \<^verbatim>\<open>os.Stat\<close>: a path that leads through a regular file fails with \<^verbatim>\<open>ENOTDIR\<close>,
  which is not the error of a path that does not exist.
\<close>

definition os_Stat :: "environment \<Rightarrow> filesystem \<Rightarrow> string \<Rightarrow> error + fileinfo" where
  "os_Stat env fs path =
     (if fails env SysStat then Inl (OSError SysStat)
      else if list_ex (\<lambda>d. files fs d \<noteq> None) (ancestors path) then Inl ErrNotDir
      else if path \<in> dirs fs then Inr IsDir
      else if files fs path \<noteq> None then Inr IsRegular
      else Inl ErrNotExist)"

text \<open>
  \<^verbatim>\<open>os.MkdirAll\<close> makes the directory and the missing directories above it; it
  fails with \<^verbatim>\<open>ENOTDIR\<close> when the path or a path above it is a regular file.
\<close>

definition os_MkdirAll :: "environment \<Rightarrow> filesystem \<Rightarrow> string \<Rightarrow> error option \<times> filesystem" where
  "os_MkdirAll env fs path =
     (if fails env SysMkdirAll then (Some (OSError SysMkdirAll), fs)
      else if files fs path \<noteq> None \<or> list_ex (\<lambda>d. files fs d \<noteq> None) (ancestors path) then
        (Some ErrNotDir, fs)
      else (None, fs\<lparr>dirs := dirs fs \<union> set (path # ancestors path)\<rparr>))"

text \<open>
  \<^verbatim>\<open>os.CreateTemp(dir, ".tmp-webhook-*")\<close>: the name is the pattern with the random
  number for the \<^verbatim>\<open>*\<close> (\<open>uitoa\<close> prints it in decimal), joined to \<open>dir\<close> with a
  separator unless \<open>dir\<close> ends with one. The file is opened with \<^verbatim>\<open>O_CREATE|O_EXCL\<close> and mode 0600 (decimal 384): the
  call fails when the name exists (the library tries other digits first; \<open>tempRandom\<close>
  stands for its last try) or when the directory does not.
\<close>

function uitoa :: "nat \<Rightarrow> string" where
  "uitoa n = (if n < 10 then [char_of (48 + n)] else uitoa (n div 10) @ [char_of (48 + n mod 10)])"
  by pat_completeness auto
termination
  by (relation "measure (\<lambda>n. n)") auto

definition tempName :: "environment \<Rightarrow> string \<Rightarrow> string" where
  "tempName env dir =
     (if dir \<noteq> [] \<and> last dir = CHR ''/'' then dir @ ''.tmp-webhook-'' @ uitoa (tempRandom env)
      else dir @ ''/'' @ ''.tmp-webhook-'' @ uitoa (tempRandom env))"

definition os_CreateTemp :: "environment \<Rightarrow> filesystem \<Rightarrow> string \<Rightarrow> (error + string) \<times> filesystem" where
  "os_CreateTemp env fs dir =
     (let name = tempName env dir in
      if fails env SysCreateTemp \<or> dir \<notin> dirs fs then (Inl (OSError SysCreateTemp), fs)
      else if files fs name \<noteq> None \<or> name \<in> dirs fs then (Inl ErrExist, fs)
      else (Inr name, fs\<lparr>files := (files fs)(name \<mapsto> ([], 384))\<rparr>))"

definition modeOf :: "filesystem \<Rightarrow> string \<Rightarrow> nat" where
  "modeOf fs path = (case files fs path of Some (content, mode) \<Rightarrow> mode | None \<Rightarrow> 0)"

definition file_Write :: "environment \<Rightarrow> filesystem \<Rightarrow> string \<Rightarrow> string \<Rightarrow> error option \<times> filesystem" where
  "file_Write env fs name data =
     (if fails env SysWrite then
        (Some (OSError SysWrite),
         fs\<lparr>files := (files fs)(name \<mapsto> (take (written env) data, modeOf fs name))\<rparr>)
      else (None, fs\<lparr>files := (files fs)(name \<mapsto> (data, modeOf fs name))\<rparr>))"

definition file_Sync :: "environment \<Rightarrow> error option" where
  "file_Sync env = (if fails env SysSync then Some (OSError SysSync) else None)"

definition file_Close :: "environment \<Rightarrow> error option" where
  "file_Close env = (if fails env SysClose then Some (OSError SysClose) else None)"

definition os_Chmod :: "environment \<Rightarrow> filesystem \<Rightarrow> string \<Rightarrow> nat \<Rightarrow> error option \<times> filesystem" where
  "os_Chmod env fs name mode =
     (case files fs name of
        None \<Rightarrow> (Some ErrNotExist, fs)
      | Some (content, m) \<Rightarrow>
          if fails env SysChmod then (Some (OSError SysChmod), fs)
          else (None, fs\<lparr>files := (files fs)(name \<mapsto> (content, mode))\<rparr>))"

text \<open>
  \<^verbatim>\<open>os.Rename\<close> replaces the target in one step or fails and changes nothing.
\<close>

definition os_Rename :: "environment \<Rightarrow> filesystem \<Rightarrow> string \<Rightarrow> string \<Rightarrow> error option \<times> filesystem" where
  "os_Rename env fs oldpath newpath =
     (case files fs oldpath of
        None \<Rightarrow> (Some ErrNotExist, fs)
      | Some f \<Rightarrow>
          if fails env SysRename \<or> newpath \<in> dirs fs then (Some (OSError SysRename), fs)
          else (None, fs\<lparr>files := ((files fs)(oldpath := None))(newpath \<mapsto> f)\<rparr>))"

definition os_Remove :: "environment \<Rightarrow> filesystem \<Rightarrow> string \<Rightarrow> error option \<times> filesystem" where
  "os_Remove env fs name =
     (if files fs name = None then (Some ErrNotExist, fs)
      else if fails env SysRemove then (Some (OSError SysRemove), fs)
      else (None, fs\<lparr>files := (files fs)(name := None)\<rparr>))"

subsection \<open>The payload's identifier and timestamp\<close>

text \<open>
  \<^verbatim>\<open>uuid.New().String()\<close>: version and variant bits are set in bytes 6 and 8, and
  the 16 bytes are printed in hexadecimal in groups of 4, 2, 2, 2 and 6 bytes.
\<close>

definition uuid_String :: "string \<Rightarrow> string" where
  "uuid_String bs =
     (let b = (\<lambda>i. if i < length bs then byte (bs ! i) else 0);
          v = (\<lambda>i. if i = 6 then b 6 mod 16 + 64 else if i = 8 then b 8 mod 64 + 128 else b i);
          hex = (\<lambda>is. concat (map (\<lambda>i. [hexDigit (v i div 16), hexDigit (v i mod 16)]) is))
      in hex [0, 1, 2, 3] @ ''-'' @ hex [4, 5] @ ''-'' @ hex [6, 7] @ ''-'' @ hex [8, 9]
         @ ''-'' @ hex [10, 11, 12, 13, 14, 15])"

definition GenerateID :: "environment \<Rightarrow> WebhookPayload \<Rightarrow> WebhookPayload" where
  "GenerateID env p = (if ID p = [] then p\<lparr>ID := uuid_String (uuidBytes env)\<rparr> else p)"

definition SetTimestamp :: "environment \<Rightarrow> WebhookPayload \<Rightarrow> WebhookPayload" where
  "SetTimestamp env p = (if IsZero (Timestamp p) then p\<lparr>Timestamp := now env\<rparr> else p)"

subsection \<open>FileStoreImpl\<close>

definition generateSecureFilename :: "environment \<Rightarrow> WebhookPayload \<Rightarrow> error + string" where
  "generateSecureFilename env payload =
     (let sanitizedTitle =
            (case SanitizeFilename (tables env) (Title payload) of
               Inl err \<Rightarrow> ''webhook''
             | Inr t \<Rightarrow> t);
          timestamp = Timestamp payload;
          filename = formatTime env timestamp @ ''_'' @ ID payload @ ''_'' @ sanitizedTitle
                     @ ''.json''
      in case SanitizeFilename (tables env) filename of
           Inr finalFilename \<Rightarrow> Inr finalFilename
         | Inl err \<Rightarrow>
             (case GenerateSecureFilename (tables env) (randomBytes env) ''webhook'' ''json'' of
                Inl genErr \<Rightarrow> Inl (Wrap ''filename generation failed'' genErr)
              | Inr fallbackName \<Rightarrow> Inr fallbackName))"

definition ensureDirectoryExists ::
    "environment \<Rightarrow> filesystem \<Rightarrow> string \<Rightarrow> error option \<times> filesystem" where
  "ensureDirectoryExists env fs dirPath =
     (case ValidatePath (getwd env) dirPath [] of
        Some err \<Rightarrow> (Some (Wrap ''invalid directory path'' err), fs)
      | None \<Rightarrow>
          (case os_Stat env fs dirPath of
             Inr info \<Rightarrow>
               if info \<noteq> IsDir then (Some (NotADirectory dirPath), fs) else (None, fs)
           | Inl err \<Rightarrow>
               if err \<noteq> ErrNotExist then (Some (Wrap ''failed to stat directory'' err), fs)
               else
                 (case os_MkdirAll env fs dirPath of
                    (Some err, fs') \<Rightarrow> (Some (Wrap ''failed to create directory'' err), fs')
                  | (None, fs') \<Rightarrow> (None, fs'))))"

text \<open>
  \<^verbatim>\<open>writeFileAtomically\<close>. The deferred function, \<open>cleanup\<close>, runs at every return
  after the temporary file has been created: it closes the file (which changes nothing
  in the file system) and removes the temporary name, ignoring the error of both.
\<close>

definition cleanup :: "environment \<Rightarrow> filesystem \<Rightarrow> string \<Rightarrow> filesystem" where
  "cleanup env fs tempPath = snd (os_Remove env fs tempPath)"

definition writeFileAtomically ::
    "environment \<Rightarrow> filesystem \<Rightarrow> string \<Rightarrow> string \<Rightarrow> error option \<times> filesystem" where
  "writeFileAtomically env fs filePath data =
     (let dir = filepath_Dir filePath in
      case os_CreateTemp env fs dir of
        (Inl err, fs0) \<Rightarrow> (Some (Wrap ''failed to create temporary file'' err), fs0)
      | (Inr tempPath, fs0) \<Rightarrow>
          (case file_Write env fs0 tempPath data of
             (Some err, fs1) \<Rightarrow>
               (Some (Wrap ''failed to write to temporary file'' err), cleanup env fs1 tempPath)
           | (None, fs1) \<Rightarrow>
               (case file_Sync env of
                  Some err \<Rightarrow>
                    (Some (Wrap ''failed to sync temporary file'' err), cleanup env fs1 tempPath)
                | None \<Rightarrow>
                    (case file_Close env of
                       Some err \<Rightarrow>
                         (Some (Wrap ''failed to close temporary file'' err),
                          cleanup env fs1 tempPath)
                     | None \<Rightarrow>
                         (case os_Chmod env fs1 tempPath 420 of
                            (Some err, fs2) \<Rightarrow>
                              (Some (Wrap ''failed to set file permissions'' err),
                               cleanup env fs2 tempPath)
                          | (None, fs2) \<Rightarrow>
                              (case os_Rename env fs2 tempPath filePath of
                                 (Some err, fs3) \<Rightarrow>
                                   (Some (Wrap ''failed to rename temporary file'' err),
                                    cleanup env fs3 tempPath)
                               | (None, fs3) \<Rightarrow> (None, cleanup env fs3 tempPath)))))))"

text \<open>
  \<^verbatim>\<open>FileStoreImpl.Write\<close>. It changes the payload through its pointer and the file
  system: the result is the returned pair (path or error), the payload as the call
  leaves it, and the file system as the call leaves it.
\<close>

definition Write ::
    "Config \<Rightarrow> environment \<Rightarrow> filesystem \<Rightarrow> WebhookPayload option
      \<Rightarrow> (error + string) \<times> WebhookPayload option \<times> filesystem" where
  "Write cfg env fs p =
     (case p of
        None \<Rightarrow> (Inl (ValidationError ''payload'' PayloadNil), None, fs)
      | Some payload0 \<Rightarrow>
          (let payload1 = (if ID payload0 = [] then GenerateID env payload0 else payload0);
               payload = (if IsZero (Timestamp payload1) then SetTimestamp env payload1
                          else payload1)
           in case generateSecureFilename env payload of
                Inl err \<Rightarrow> (Inl (FileError ''filename generation'' [] err), Some payload, fs)
              | Inr baseFilename \<Rightarrow>
                  (let fullPath = filepath_Join [StoragePath cfg, baseFilename] in
                   case IsSecurePath (tables env) (getwd env) fullPath (StoragePath cfg) of
                     Some err \<Rightarrow>
                       (Inl (FileError ''path validation'' fullPath err), Some payload, fs)
                   | None \<Rightarrow>
                       (let parentDir = filepath_Dir fullPath in
                        case ensureDirectoryExists env fs parentDir of
                          (Some err, fs1) \<Rightarrow>
                            (Inl (FileError ''directory creation'' parentDir err),
                             Some payload, fs1)
                        | (None, fs1) \<Rightarrow>
                            (case marshalIndent env of
                               Inl err \<Rightarrow>
                                 (Inl (FileError ''json marshaling'' fullPath err),
                                  Some payload, fs1)
                             | Inr data \<Rightarrow>
                                 if int (length data) > MaxFileSize cfg then
                                   (Inl (FileError ''size validation'' fullPath
                                          (SizeExceeds (length data) (MaxFileSize cfg))),
                                    Some payload, fs1)
                                 else
                                   (case writeFileAtomically env fs1 fullPath data of
                                      (Some err, fs2) \<Rightarrow>
                                        (Inl (FileError ''atomic write'' fullPath err),
                                         Some payload, fs2)
                                    | (None, fs2) \<Rightarrow> (Inr fullPath, Some payload, fs2)))))))"

text \<open>
  An environment for the examples: no call fails, the clock shows a time after the
  zero time, every random byte of the UUID is 0xAB, and the formatted time and the
  serialized payload are fixed texts. \<open>emptyDisk\<close> is a file system without files.
\<close>

definition exampleEnv :: environment where
  "exampleEnv =
     \<lparr>getwd = Inr ''/srv/app'', uuidBytes = replicate 16 (CHR 0xAB), now = 1700000000,
      formatTime = (\<lambda>t. ''2025-11-03_10-00-00''),
      randomBytes = Inr (replicate 8 (CHR 0x01)),
      marshalIndent = Inr (jsonText ''{'title': 'X'}''), tempRandom = 305,
      fails = (\<lambda>c. False), written = 0, tables = asciiOnly\<rparr>"

definition emptyDisk :: filesystem where
  "emptyDisk = \<lparr>dirs = {}, files = Map.empty\<rparr>"

text \<open>
  A proper file name: not empty, without separator, and not beginning with a dot (so
  it is neither \<^verbatim>\<open>.\<close> nor \<^verbatim>\<open>..\<close> nor a hidden name).
\<close>

definition properName :: "string \<Rightarrow> bool" where
  "properName b = (b \<noteq> [] \<and> CHR ''/'' \<notin> set b \<and> hd b \<noteq> CHR ''.'')"

text \<open>
  \<open>sameExcept t fs fs'\<close>: the two file systems have the same directories and the
  same regular files, the name \<open>t\<close> apart.
\<close>

definition sameExcept :: "string \<Rightarrow> filesystem \<Rightarrow> filesystem \<Rightarrow> bool" where
  "sameExcept t fs fs' = (dirs fs' = dirs fs \<and> (\<forall>p. p \<noteq> t \<longrightarrow> files fs' p = files fs p))"

section \<open>Verification\<close>

subsection \<open>Facts about the sanitizer\<close>

lemma safeNameChar_underscore: "safeNameChar CHR ''_''"
  by (simp add: safeNameChar_def byte_def)

lemma safeNameChar_not_unsafe: "\<not> unsafeChar c \<Longrightarrow> safeNameChar c"
proof -
  assume "\<not> unsafeChar c"
  then have "byte c \<noteq> 47" "byte c \<noteq> 92" "\<not> byte c \<le> 31"
    by (auto simp: unsafeChar_def)
  then show ?thesis
    by (auto simp: safeNameChar_def byte_def)
qed

lemma safeNameChar_replaceUnsafe: "c \<in> set (replaceUnsafe s) \<Longrightarrow> safeNameChar c"
proof (induction s)
  case Nil
  then show ?case by (simp add: replaceUnsafe_def)
next
  case (Cons a s)
  from Cons.prems have "c = (if unsafeChar a then CHR ''_'' else a) \<or> c \<in> set (replaceUnsafe s)"
    unfolding replaceUnsafe_def by (simp only: list.map set_simps insert_iff)
  then show ?case
    using Cons.IH safeNameChar_underscore safeNameChar_not_unsafe [of a]
    by (cases "unsafeChar a") auto
qed

lemma set_collapseUnderscores: "set (collapseUnderscores s) \<subseteq> set s"
  by (induction s rule: collapseUnderscores.induct) auto

lemma set_strings_Trim: "set (strings_Trim s cs) \<subseteq> set s"
  by (auto simp: strings_Trim_def dest!: set_dropWhileD)

lemma set_extRev: "set (extRev r acc) \<subseteq> set r \<union> set acc"
proof (induction r arbitrary: acc)
  case Nil
  then show ?case by simp
next
  case (Cons a r)
  from Cons.IH [of "a # acc"] show ?case by auto
qed

lemma set_filepath_Ext: "set (filepath_Ext s) \<subseteq> set s"
  using set_extRev [of "rev s" "[]"] by (simp add: filepath_Ext_def)

lemma set_enforceLength: "set (enforceLength s) \<subseteq> set s"
proof -
  have "set (take n (take m s) @ filepath_Ext s) \<subseteq> set s" for n m
    using set_filepath_Ext [of s] set_take_subset [of n "take m s"] set_take_subset [of m s]
    by auto
  moreover have "set (take n s) \<subseteq> set s" for n
    by (rule set_take_subset)
  ultimately show ?thesis
    by (simp add: enforceLength_def Let_def)
qed

lemma length_enforceLength: "length (enforceLength s) \<le> MaxFilenameLength"
  by (auto simp: enforceLength_def Let_def MaxFilenameLength_def)

subsection \<open>C2: what a sanitized name holds\<close>

text \<open>
  Claim C2. Whenever \<^verbatim>\<open>SanitizeFilename\<close> succeeds, the name it returns holds no
  path separator (neither \<^verbatim>\<open>/\<close> nor the backslash), no NUL byte, no control
  character 0x00 to 0x1F, and is at most 255 bytes long.
\<close>

theorem SanitizeFilename_safe:
  assumes "SanitizeFilename U filename = Inr name"
  shows "(\<forall>c \<in> set name. c \<noteq> CHR ''/'' \<and> c \<noteq> CHR 0x5C \<and> c \<noteq> CHR 0x00 \<and> \<not> byte c \<le> 31)
         \<and> length name \<le> 255"
proof -
  define cleaned where "cleaned = strings_TrimSpace filename"
  define sanitized where
    "sanitized = strings_Trim (collapseUnderscores (replaceUnsafe cleaned)) ''_.''"
  define sanitized2 where
    "sanitized2 = (if strings_ToUpper U (beforeFirstDot sanitized) \<in> set reservedNames
                   then CHR ''_'' # sanitized else sanitized)"
  from assms have name: "name = enforceLength sanitized2"
    by (auto simp: SanitizeFilename_def Let_def cleaned_def sanitized_def sanitized2_def
             split: if_splits)
  have "\<forall>c \<in> set (replaceUnsafe cleaned). safeNameChar c"
    using safeNameChar_replaceUnsafe by blast
  then have "\<forall>c \<in> set sanitized. safeNameChar c"
    using set_collapseUnderscores set_strings_Trim unfolding sanitized_def by blast
  then have "\<forall>c \<in> set sanitized2. safeNameChar c"
    by (simp add: sanitized2_def safeNameChar_underscore)
  then have "\<forall>c \<in> set name. safeNameChar c"
    using set_enforceLength [of sanitized2] unfolding name by blast
  then have "\<forall>c \<in> set name. c \<noteq> CHR ''/'' \<and> c \<noteq> CHR 0x5C \<and> c \<noteq> CHR 0x00 \<and> \<not> byte c \<le> 31"
    unfolding safeNameChar_def .
  moreover have "length name \<le> 255"
    using length_enforceLength [of sanitized2] by (simp add: name MaxFilenameLength_def)
  ultimately show ?thesis
    by (rule conjI)
qed

theorem SanitizeFilename_safe_witness:
  "SanitizeFilename \<lparr>mapToUpper = id, mapToLower = id\<rparr> ''my document.txt'' = Inr ''my_document.txt''
   \<and> list_all (\<lambda>c. c \<noteq> CHR ''/'' \<and> c \<noteq> CHR 0x5C \<and> c \<noteq> CHR 0x00 \<and> \<not> byte c \<le> 31)
        ''my_document.txt''
   \<and> length ''my_document.txt'' \<le> 255"
proof -
  have h: "SanitizeFilename \<lparr>mapToUpper = id, mapToLower = id\<rparr> ''my document.txt'' = Inr ''my_document.txt''"
    by code_simp
  from SanitizeFilename_safe [OF h]
  have "list_all (\<lambda>c. c \<noteq> CHR ''/'' \<and> c \<noteq> CHR 0x5C \<and> c \<noteq> CHR 0x00 \<and> \<not> byte c \<le> 31)
          ''my_document.txt''"
    and "length ''my_document.txt'' \<le> 255"
    unfolding list_all_iff by (rule conjunct1, rule conjunct2)
  with h show ?thesis
    by (intro conjI)
qed

subsection \<open>Facts about the data walk\<close>

lemma walk_None_iff:
  "validateDataStructure v d = None \<longleftrightarrow>
     d + nesting v \<le> MaxNestingDepth \<and> valuesOk v \<and> (\<forall>k \<in> set (allKeys v). keyOk k)"
  "validateEntries m d = None \<longleftrightarrow>
     (m = [] \<or> d + nestingEntries m \<le> MaxNestingDepth) \<and> entriesOk m
     \<and> (\<forall>k \<in> set (entriesKeys m). keyOk k)"
  "validateElements l i d = None \<longleftrightarrow>
     (l = [] \<or> d + nestingElements l \<le> MaxNestingDepth) \<and> elementsOk l
     \<and> (\<forall>k \<in> set (elementsKeys l). keyOk k)"
proof (induction v d and m d and l i d rule: validateDataStructure_validateEntries_validateElements.induct)
  case (1 v depth)
  show ?case
  proof (cases "depth > MaxNestingDepth")
    case True
    then show ?thesis by simp
  next
    case False
    show ?thesis
    proof (cases v)
      case (VMap val)
      with False 1(1) [of val] show ?thesis
        by (cases val) (auto simp: Let_def)
    next
      case (VSlice val)
      with False 1(2) [of val] show ?thesis
        by (cases val) (auto simp: Let_def)
    qed (use False in auto)
  qed
next
  case (2 depth)
  show ?case by simp
next
  case (3 key subValue rest depth)
  then show ?case
    by (auto simp: keyOk_def split: option.splits)
next
  case (4 i depth)
  show ?case by simp
next
  case (5 element rest i depth)
  then show ?case
    by (auto split: option.splits)
qed

lemma walk_error_cause:
  "valuesOk v \<Longrightarrow> \<forall>k \<in> set (allKeys v). keyOk k \<Longrightarrow> d \<le> Suc MaxNestingDepth \<Longrightarrow>
     validateDataStructure v d = Some e \<Longrightarrow>
     cause e = NestingTooDeep (Suc MaxNestingDepth) MaxNestingDepth"
  "entriesOk m \<Longrightarrow> \<forall>k \<in> set (entriesKeys m). keyOk k \<Longrightarrow> d \<le> MaxNestingDepth \<Longrightarrow>
     validateEntries m d = Some e \<Longrightarrow>
     cause e = NestingTooDeep (Suc MaxNestingDepth) MaxNestingDepth"
  "elementsOk l \<Longrightarrow> \<forall>k \<in> set (elementsKeys l). keyOk k \<Longrightarrow> d \<le> MaxNestingDepth \<Longrightarrow>
     validateElements l i d = Some e \<Longrightarrow>
     cause e = NestingTooDeep (Suc MaxNestingDepth) MaxNestingDepth"
proof (induction v d and m d and l i d arbitrary: e and e and e
       rule: validateDataStructure_validateEntries_validateElements.induct)
  case (1 v depth)
  show ?case
  proof (cases "depth > MaxNestingDepth")
    case True
    with "1.prems" show ?thesis by auto
  next
    case False
    show ?thesis
    proof (cases v)
      case (VMap val)
      with False "1.prems" "1.IH"(1) [of val e] show ?thesis
        by (auto split: if_splits)
    next
      case (VSlice val)
      with False "1.prems" "1.IH"(2) [of val e] show ?thesis
        by (auto split: if_splits)
    qed (use False "1.prems" in \<open>auto split: if_splits\<close>)
  qed
next
  case (2 depth)
  then show ?case by simp
next
  case (3 key subValue rest depth)
  show ?case
  proof (cases "validateDataStructure subValue (depth + 1)")
    case None
    with "3.prems" "3.IH"(2) [of e] show ?thesis
      by (auto simp: keyOk_def split: if_splits)
  next
    case (Some err)
    with "3.prems" "3.IH"(1) [of err] show ?thesis
      by (auto simp: keyOk_def split: if_splits)
  qed
next
  case (4 i depth)
  then show ?case by simp
next
  case (5 element rest i depth)
  show ?case
  proof (cases "validateDataStructure element (depth + 1)")
    case None
    with "5.prems" "5.IH"(2) [of e] show ?thesis
      by auto
  next
    case (Some err)
    with "5.prems" "5.IH"(1) [of err] show ?thesis
      by auto
  qed
qed

subsection \<open>C5: the nesting limit\<close>

text \<open>
  Claim C5. With \<open>MaxNestingDepth = 5\<close>, the validation of the data field succeeds
  for a tree nested to 5 levels (and to fewer) and fails with a nesting-depth error for
  a tree nested to 6 levels (and to more). The depth counter is 0 at the top-level data
  object and grows by one with each object or array entered, so the levels of a tree
  are the container boundaries crossed down to its deepest value, \<open>nesting\<close>; the
  error is raised where the counter reaches 6. The tree is one that breaks no other
  limit (\<open>valuesOk\<close>, \<open>keyOk\<close>) and whose serialized form \<open>jsonData\<close> is within
  \<open>MaxDataSize\<close>, so that the nesting alone decides.
\<close>

theorem nesting_limit:
  assumes "valuesOk (VMap data)"
    and "\<forall>k \<in> set (allKeys (VMap data)). keyOk k"
    and "int (length jsonData) \<le> MaxDataSize cfg"
  shows "(nesting (VMap data) \<le> 5 \<longrightarrow> validateDataField cfg (Inr jsonData) data = None) \<and>
         (5 < nesting (VMap data) \<longrightarrow>
            (\<exists>e. validateDataField cfg (Inr jsonData) data = Some (ValidationError ''data'' e)
                 \<and> cause e = NestingTooDeep 6 5))"
proof (intro conjI impI)
  assume "nesting (VMap data) \<le> 5"
  with assms(1,2) have "validateDataStructure (VMap data) 0 = None"
    by (simp only: walk_None_iff(1) MaxNestingDepth_def add_0 simp_thms)
  with assms(3) show "validateDataField cfg (Inr jsonData) data = None"
    by (simp add: validateDataField_def)
next
  assume deep: "5 < nesting (VMap data)"
  then have "validateDataStructure (VMap data) 0 \<noteq> None"
    by (simp only: walk_None_iff(1) MaxNestingDepth_def add_0) simp
  then obtain e where e: "validateDataStructure (VMap data) 0 = Some e"
    by blast
  have "0 \<le> Suc MaxNestingDepth"
    by simp
  from walk_error_cause(1) [OF assms(1,2) this e]
  have "cause e = NestingTooDeep 6 5"
    by (simp add: MaxNestingDepth_def)
  with e assms(3)
  show "\<exists>e. validateDataField cfg (Inr jsonData) data = Some (ValidationError ''data'' e)
            \<and> cause e = NestingTooDeep 6 5"
    by (simp add: validateDataField_def)
qed

theorem nesting_limit_witness:
  "valuesOk (VMap fiveLevels) \<and> list_all keyOk (allKeys (VMap fiveLevels))
   \<and> int (length (jsonText ''{'level1':{'level2':{'level3':{'level4':{'level5':'ok'}}}}}''))
       \<le> MaxDataSize defaultConfig
   \<and> nesting (VMap fiveLevels) = 5
   \<and> validateDataField defaultConfig
         (Inr (jsonText ''{'level1':{'level2':{'level3':{'level4':{'level5':'ok'}}}}}''))
         fiveLevels = None
   \<and> valuesOk (VMap sixLevels) \<and> list_all keyOk (allKeys (VMap sixLevels))
   \<and> nesting (VMap sixLevels) = 6
   \<and> (\<exists>e. validateDataField defaultConfig (Inr ''{}'') sixLevels
              = Some (ValidationError ''data'' e)
            \<and> cause e = NestingTooDeep 6 5)"
proof -
  let ?js = "jsonText ''{'level1':{'level2':{'level3':{'level4':{'level5':'ok'}}}}}''"
  have v5: "valuesOk (VMap fiveLevels)"
    by code_simp
  have k5: "\<forall>k \<in> set (allKeys (VMap fiveLevels)). keyOk k"
    by code_simp
  have s5: "int (length ?js) \<le> MaxDataSize defaultConfig"
    by (simp add: jsonText_def defaultConfig_def)
  have n5: "nesting (VMap fiveLevels) = 5"
    by code_simp
  have v6: "valuesOk (VMap sixLevels)"
    by code_simp
  have k6: "\<forall>k \<in> set (allKeys (VMap sixLevels)). keyOk k"
    by code_simp
  have s6: "int (length ''{}'') \<le> MaxDataSize defaultConfig"
    by (simp add: defaultConfig_def)
  have n6: "nesting (VMap sixLevels) = 6"
    by code_simp
  from nesting_limit [OF v5 k5 s5] n5
  have r5: "validateDataField defaultConfig (Inr ?js) fiveLevels = None"
    by simp
  from nesting_limit [OF v6 k6 s6] n6
  have r6: "\<exists>e. validateDataField defaultConfig (Inr ''{}'') sixLevels
                 = Some (ValidationError ''data'' e)
               \<and> cause e = NestingTooDeep 6 5"
    by simp
  from k5 k6 have l5: "list_all keyOk (allKeys (VMap fiveLevels))"
    and l6: "list_all keyOk (allKeys (VMap sixLevels))"
    unfolding list_all_iff .
  from v5 l5 s5 n5 r5 v6 l6 n6 r6 show ?thesis
    by (intro conjI)
qed

subsection \<open>C8: the size of the serialized data is checked first\<close>

text \<open>
  Claim C8. In \<^verbatim>\<open>validateDataField\<close> the size of the serialized data tree is compared
  with \<open>MaxDataSize\<close> before the recursive walk: whenever the serialized form
  \<open>jsonData\<close> is longer than \<open>MaxDataSize\<close>, the result is the data-too-large error,
  whatever the tree holds; no check of the walk (depth, string length, key count,
  array length) has a say in it.
\<close>

theorem size_checked_before_walk:
  assumes "int (length jsonData) > MaxDataSize cfg"
  shows "validateDataField cfg (Inr jsonData) data
           = Some (ValidationError ''data'' (DataTooLarge (length jsonData) (MaxDataSize cfg)))"
  using assms by (simp add: validateDataField_def)

text \<open>
  The witness is a tree the walk would refuse (it holds a value of an unsupported type),
  under a limit of 4 bytes: the answer is the size error, not the one of the walk.
\<close>

theorem size_checked_before_walk_witness:
  "int (length (jsonText ''{'a':{}}'')) > MaxDataSize (defaultConfig\<lparr>MaxDataSize := 4\<rparr>)
   \<and> validateDataStructure (VMap [(''a'', VUnsupported)]) 0 = Some (InObjectKey ''a'' UnsupportedType)
   \<and> validateDataField (defaultConfig\<lparr>MaxDataSize := 4\<rparr>) (Inr (jsonText ''{'a':{}}''))
         [(''a'', VUnsupported)]
       = Some (ValidationError ''data'' (DataTooLarge 8 4))"
proof -
  have h: "int (length (jsonText ''{'a':{}}'')) > MaxDataSize (defaultConfig\<lparr>MaxDataSize := 4\<rparr>)"
    by (simp add: jsonText_def)
  have w: "validateDataStructure (VMap [(''a'', VUnsupported)]) 0
             = Some (InObjectKey ''a'' UnsupportedType)"
    by code_simp
  from size_checked_before_walk [OF h, of "[(''a'', VUnsupported)]"]
  have "validateDataField (defaultConfig\<lparr>MaxDataSize := 4\<rparr>) (Inr (jsonText ''{'a':{}}''))
          [(''a'', VUnsupported)]
        = Some (ValidationError ''data'' (DataTooLarge 8 4))"
    by (simp add: jsonText_def)
  with h w show ?thesis
    by (intro conjI)
qed

subsection \<open>C10: what the walk asks of a key\<close>

text \<open>
  Claim C10. In the recursive walk an object key is checked for its length (at most
  100 bytes) and for being valid UTF-8, and for nothing else. In the loop over the
  entries of an object, a key of more than 100 bytes ends the walk with the
  key-too-long error, a key of at most 100 bytes that is not valid UTF-8 ends it with
  the invalid-UTF-8-key error, and for any other key the walk goes on with the value
  of the entry and the rest of the object, whatever bytes the key holds. So a tree is
  accepted exactly when its nesting is within the limit, its values are within their
  limits and every key, at every level, is at most 100 bytes of valid UTF-8: a NUL byte
  or another control character in a key never makes the walk refuse. The test for
  unsafe characters is applied to string values (it is part of \<open>valuesOk\<close>), never
  to keys.
\<close>

theorem keys_checked_for_length_and_encoding_only:
  "(validateDataStructure v d = None \<longleftrightarrow>
      d + nesting v \<le> MaxNestingDepth \<and> valuesOk v
      \<and> (\<forall>k \<in> set (allKeys v). length k \<le> 100 \<and> utf8_ValidString k))
   \<and> (length key > 100 \<longrightarrow>
        validateEntries ((key, subValue) # rest) d = Some (KeyTooLong key))
   \<and> (length key \<le> 100 \<and> \<not> utf8_ValidString key \<longrightarrow>
        validateEntries ((key, subValue) # rest) d = Some (InvalidUTF8Key key))
   \<and> (length key \<le> 100 \<and> utf8_ValidString key \<longrightarrow>
        validateEntries ((key, subValue) # rest) d
          = (case validateDataStructure subValue (d + 1) of
               Some err \<Rightarrow> Some (InObjectKey key err)
             | None \<Rightarrow> validateEntries rest d))"
proof (intro conjI impI)
  show "validateDataStructure v d = None \<longleftrightarrow>
          d + nesting v \<le> MaxNestingDepth \<and> valuesOk v
          \<and> (\<forall>k \<in> set (allKeys v). length k \<le> 100 \<and> utf8_ValidString k)"
    using walk_None_iff(1) [of v d] by (simp add: keyOk_def)
next
  assume "length key > 100"
  then show "validateEntries ((key, subValue) # rest) d = Some (KeyTooLong key)"
    by simp
next
  assume "length key \<le> 100 \<and> \<not> utf8_ValidString key"
  then show "validateEntries ((key, subValue) # rest) d = Some (InvalidUTF8Key key)"
    by simp
next
  assume "length key \<le> 100 \<and> utf8_ValidString key"
  then show "validateEntries ((key, subValue) # rest) d
               = (case validateDataStructure subValue (d + 1) of
                    Some err \<Rightarrow> Some (InObjectKey key err)
                  | None \<Rightarrow> validateEntries rest d)"
    by simp
qed

text \<open>
  The witness: a key made of the bytes 0x00 and 0x01 is accepted, while the same
  bytes as a string value are refused; a key of 101 bytes and a key that is not valid
  UTF-8 (the byte 0xFF) are refused.
\<close>

theorem keys_checked_for_length_and_encoding_only_witness:
  "list_all (\<lambda>k. length k \<le> 100 \<and> utf8_ValidString k)
     (allKeys (VMap [([CHR 0x00, CHR 0x01], VString ''x'')]))
   \<and> containsUnsafeCharacters [CHR 0x00, CHR 0x01]
   \<and> validateDataStructure (VMap [([CHR 0x00, CHR 0x01], VString ''x'')]) 0 = None
   \<and> validateDataStructure (VMap [(''x'', VString [CHR 0x00, CHR 0x01])]) 0
       = Some (InObjectKey ''x'' UnsafeCharactersInString)
   \<and> length (replicate 101 (CHR ''k'')) > 100
   \<and> validateEntries [(replicate 101 (CHR ''k''), VString ''x'')] 0
       = Some (KeyTooLong (replicate 101 (CHR ''k'')))
   \<and> length [CHR 0xFF] \<le> 100 \<and> \<not> utf8_ValidString [CHR 0xFF]
   \<and> validateEntries [([CHR 0xFF], VString ''x'')] 0 = Some (InvalidUTF8Key [CHR 0xFF])
   \<and> validateDataStructure (VMap [([CHR 0xFF], VString ''x'')]) 0 \<noteq> None"
proof -
  let ?v = "VMap [([CHR 0x00, CHR 0x01], VString ''x'')]"
  let ?long = "replicate 101 (CHR ''k'')"
  have k: "\<forall>k \<in> set (allKeys ?v). length k \<le> 100 \<and> utf8_ValidString k"
    by code_simp
  have u: "containsUnsafeCharacters [CHR 0x00, CHR 0x01]"
    by code_simp
  have "0 + nesting ?v \<le> MaxNestingDepth \<and> valuesOk ?v"
    by code_simp
  with keys_checked_for_length_and_encoding_only [of ?v 0] k
  have a: "validateDataStructure ?v 0 = None"
    by blast
  have b: "validateDataStructure (VMap [(''x'', VString [CHR 0x00, CHR 0x01])]) 0
             = Some (InObjectKey ''x'' UnsafeCharactersInString)"
    by code_simp
  from k have l: "list_all (\<lambda>k. length k \<le> 100 \<and> utf8_ValidString k) (allKeys ?v)"
    unfolding list_all_iff .
  have c: "length ?long > 100"
    by simp
  with keys_checked_for_length_and_encoding_only [where key = ?long and subValue = "VString ''x''"
         and rest = "[]" and d = 0]
  have e: "validateEntries [(?long, VString ''x'')] 0 = Some (KeyTooLong ?long)"
    by blast
  have f: "length [CHR 0xFF] \<le> 100"
    by simp
  have g: "\<not> utf8_ValidString [CHR 0xFF]"
    by code_simp
  from keys_checked_for_length_and_encoding_only [where key = "[CHR 0xFF]"
         and subValue = "VString ''x''" and rest = "[]" and d = 0] f g
  have h: "validateEntries [([CHR 0xFF], VString ''x'')] 0 = Some (InvalidUTF8Key [CHR 0xFF])"
    by blast
  have "\<not> (\<forall>k \<in> set (allKeys (VMap [([CHR 0xFF], VString ''x'')])).
              length k \<le> 100 \<and> utf8_ValidString k)"
    using g by simp
  with keys_checked_for_length_and_encoding_only [of "VMap [([CHR 0xFF], VString ''x'')]" 0]
  have i: "validateDataStructure (VMap [([CHR 0xFF], VString ''x'')]) 0 \<noteq> None"
    by blast
  from l u a b c e f g h i show ?thesis
    by (intro conjI)
qed

subsection \<open>Facts about the business rules\<close>

lemma reservedFieldLoop_find:
  "reservedFieldLoop U ks =
     (case find (isReservedKey U) ks of
        None \<Rightarrow> None
      | Some k \<Rightarrow> Some (ValidationError ''data'' (ReservedFieldName k)))"
  by (induction ks) (simp_all add: isReservedKey_def)

lemma firstContained_None_iff:
  "firstContained s chars = None \<longleftrightarrow> (\<forall>ch \<in> set chars. \<not> strings_Contains s ch)"
  by (induction chars) simp_all

lemma validateBusinessRules_reserved:
  assumes "find (isReservedKey U) (dataKeys p) = Some k"
  shows "validateBusinessRules U p = Some (ValidationError ''data'' (ReservedFieldName k))"
  using assms by (simp add: validateBusinessRules_def reservedFieldLoop_find)

lemma Validate_rejects_if_rules_reject:
  assumes "validateBusinessRules U p \<noteq> None"
  shows "Validate cfg U marshalled (Some p) \<noteq> None"
  using assms by (simp add: Validate_def split: option.splits)

subsection \<open>C6: reserved names among the top-level keys of the data\<close>

lemma Validate_with_reserved_key:
  assumes "validateBusinessRules U p = Some e"
  shows "Validate cfg U marshalled (Some p)
           = (case ValidateStructure (Some p) of
                Some err \<Rightarrow> Some err
              | None \<Rightarrow>
                  (case ValidateContent cfg marshalled (Some p) of
                     Some err \<Rightarrow> Some err
                   | None \<Rightarrow> Some e))"
  using assms by (simp add: Validate_def split: option.splits)

text \<open>
  Claim C6, as amended. When a top-level key of the data is reserved (its lower-case
  form is one of id, timestamp, title, description, source, type), the business rules
  fail with the reserved-field error that names the first such key in the order in
  which the map is iterated, and so the validation of the payload fails: with the error
  of the structure check or of the content check when one of these fails, since they
  come first, and with that reserved-field error otherwise. The error names a given
  reserved key when that key is the only reserved one. When no top-level key is
  reserved, the reserved-field check passes: only the top-level keys (\<open>dataKeys\<close>)
  are looked at, never the keys of nested objects.
\<close>

theorem reserved_top_level_key:
  "(\<forall>k. find (isReservedKey U) (dataKeys p) = Some k \<longrightarrow>
        validateBusinessRules U p = Some (ValidationError ''data'' (ReservedFieldName k))
        \<and> Validate cfg U marshalled (Some p) \<noteq> None
        \<and> Validate cfg U marshalled (Some p)
            = (case ValidateStructure (Some p) of
                 Some err \<Rightarrow> Some err
               | None \<Rightarrow>
                   (case ValidateContent cfg marshalled (Some p) of
                      Some err \<Rightarrow> Some err
                    | None \<Rightarrow> Some (ValidationError ''data'' (ReservedFieldName k))))
        \<and> (ValidateStructure (Some p) = None \<and> ValidateContent cfg marshalled (Some p) = None \<longrightarrow>
             Validate cfg U marshalled (Some p)
               = Some (ValidationError ''data'' (ReservedFieldName k))))
   \<and> (\<forall>k \<in> set (dataKeys p). isReservedKey U k \<longrightarrow>
        (\<exists>k'. find (isReservedKey U) (dataKeys p) = Some k'
              \<and> (( \<forall>j \<in> set (dataKeys p). isReservedKey U j \<longrightarrow> j = k) \<longrightarrow> k' = k)))
   \<and> ((\<forall>k \<in> set (dataKeys p). \<not> isReservedKey U k) \<longrightarrow>
        reservedFieldLoop U (dataKeys p) = None)"
proof (intro conjI allI impI ballI)
  fix k
  assume f: "find (isReservedKey U) (dataKeys p) = Some k"
  then show r: "validateBusinessRules U p = Some (ValidationError ''data'' (ReservedFieldName k))"
    by (rule validateBusinessRules_reserved)
  then have "validateBusinessRules U p \<noteq> None"
    by simp
  then show "Validate cfg U marshalled (Some p) \<noteq> None"
    by (rule Validate_rejects_if_rules_reject)
  from r show v: "Validate cfg U marshalled (Some p)
            = (case ValidateStructure (Some p) of
                 Some err \<Rightarrow> Some err
               | None \<Rightarrow>
                   (case ValidateContent cfg marshalled (Some p) of
                      Some err \<Rightarrow> Some err
                    | None \<Rightarrow> Some (ValidationError ''data'' (ReservedFieldName k))))"
    by (rule Validate_with_reserved_key)
  assume "ValidateStructure (Some p) = None \<and> ValidateContent cfg marshalled (Some p) = None"
  with v show "Validate cfg U marshalled (Some p)
                 = Some (ValidationError ''data'' (ReservedFieldName k))"
    by simp
next
  fix k
  assume k: "k \<in> set (dataKeys p)" "isReservedKey U k"
  then have "find (isReservedKey U) (dataKeys p) \<noteq> None"
    by (auto simp: find_None_iff)
  then obtain k' where k': "find (isReservedKey U) (dataKeys p) = Some k'"
    by blast
  then have "k' \<in> set (dataKeys p)" "isReservedKey U k'"
    by (auto simp: find_Some_iff)
  with k' show "\<exists>k'. find (isReservedKey U) (dataKeys p) = Some k'
              \<and> ((\<forall>j \<in> set (dataKeys p). isReservedKey U j \<longrightarrow> j = k) \<longrightarrow> k' = k)"
    by blast
next
  assume "\<forall>k \<in> set (dataKeys p). \<not> isReservedKey U k"
  then have "find (isReservedKey U) (dataKeys p) = None"
    by (simp add: find_None_iff)
  then show "reservedFieldLoop U (dataKeys p) = None"
    by (simp add: reservedFieldLoop_find)
qed

text \<open>
  The witness is scenario 3 of the specification, data \<^verbatim>\<open>{"ID":"spoof"}\<close> with the key
  in capitals, which passes the structure and content checks and is refused with the
  reserved-field error, and a payload whose only reserved key is nested.
\<close>

theorem reserved_top_level_key_witness:
  "find (isReservedKey asciiOnly) (dataKeys (simplePayload\<lparr>Data := Some [(''ID'', VString ''spoof'')]\<rparr>))
     = Some ''ID''
   \<and> validateBusinessRules asciiOnly (simplePayload\<lparr>Data := Some [(''ID'', VString ''spoof'')]\<rparr>)
       = Some (ValidationError ''data'' (ReservedFieldName ''ID''))
   \<and> ValidateStructure (Some (simplePayload\<lparr>Data := Some [(''ID'', VString ''spoof'')]\<rparr>)) = None
   \<and> ValidateContent defaultConfig (Inr (jsonText ''{'ID':'spoof'}''))
        (Some (simplePayload\<lparr>Data := Some [(''ID'', VString ''spoof'')]\<rparr>)) = None
   \<and> Validate defaultConfig asciiOnly (Inr (jsonText ''{'ID':'spoof'}''))
        (Some (simplePayload\<lparr>Data := Some [(''ID'', VString ''spoof'')]\<rparr>))
       = Some (ValidationError ''data'' (ReservedFieldName ''ID''))
   \<and> list_all (\<lambda>k. \<not> isReservedKey asciiOnly k)
         (dataKeys (simplePayload\<lparr>Data := Some [(''meta'', VMap [(''id'', VPrimitive)])]\<rparr>))
   \<and> reservedFieldLoop asciiOnly
         (dataKeys (simplePayload\<lparr>Data := Some [(''meta'', VMap [(''id'', VPrimitive)])]\<rparr>)) = None"
proof -
  let ?p = "simplePayload\<lparr>Data := Some [(''ID'', VString ''spoof'')]\<rparr>"
  let ?q = "simplePayload\<lparr>Data := Some [(''meta'', VMap [(''id'', VPrimitive)])]\<rparr>"
  let ?js = "Inr (jsonText ''{'ID':'spoof'}'') :: error + string"
  have f: "find (isReservedKey asciiOnly) (dataKeys ?p) = Some ''ID''"
    by code_simp
  have n: "\<forall>k \<in> set (dataKeys ?q). \<not> isReservedKey asciiOnly k"
    by code_simp
  have s: "ValidateStructure (Some ?p) = None"
    by code_simp
  have c: "ValidateContent defaultConfig ?js (Some ?p) = None"
    by code_simp
  from reserved_top_level_key [of asciiOnly ?p defaultConfig ?js] f
  have a: "validateBusinessRules asciiOnly ?p
             = Some (ValidationError ''data'' (ReservedFieldName ''ID''))"
    by blast
  from reserved_top_level_key [of asciiOnly ?p defaultConfig ?js] f s c
  have v: "Validate defaultConfig asciiOnly ?js (Some ?p)
             = Some (ValidationError ''data'' (ReservedFieldName ''ID''))"
    by blast
  from reserved_top_level_key [of asciiOnly ?q defaultConfig ?js] n
  have b: "reservedFieldLoop asciiOnly (dataKeys ?q) = None"
    by blast
  from n have l: "list_all (\<lambda>k. \<not> isReservedKey asciiOnly k) (dataKeys ?q)"
    unfolding list_all_iff .
  from f a s c v l b show ?thesis
    by (intro conjI)
qed

text \<open>
  The claim as it stands says that the validation fails with a reserved-field error
  that names the reserved key, for every reserved key of the data. With the two
  reserved keys \<^verbatim>\<open>id\<close> and \<^verbatim>\<open>title\<close>, iterated in this order, the error names
  \<^verbatim>\<open>id\<close> and not \<^verbatim>\<open>title\<close>. And with the reserved key \<^verbatim>\<open>id\<close> and a title of
  65 bytes, one more than the limit, the validation fails with the error of the title,
  which the content check returns before the business rules are looked at.
\<close>

theorem reserved_key_not_named_counterexample:
  "''title'' \<in> set (dataKeys (simplePayload\<lparr>Data := Some [(''id'', VString ''spoof''), (''title'', VString ''x'')]\<rparr>))
   \<and> isReservedKey asciiOnly ''title''
   \<and> validateBusinessRules asciiOnly
        (simplePayload\<lparr>Data := Some [(''id'', VString ''spoof''), (''title'', VString ''x'')]\<rparr>)
       = Some (ValidationError ''data'' (ReservedFieldName ''id''))
   \<and> validateBusinessRules asciiOnly
        (simplePayload\<lparr>Data := Some [(''id'', VString ''spoof''), (''title'', VString ''x'')]\<rparr>)
       \<noteq> Some (ValidationError ''data'' (ReservedFieldName ''title''))
   \<and> ''id'' \<in> set (dataKeys (simplePayload\<lparr>Title := replicate 65 (CHR ''a''),
                                             Data := Some [(''id'', VString ''spoof'')]\<rparr>))
   \<and> isReservedKey asciiOnly ''id''
   \<and> Validate defaultConfig asciiOnly (Inr (jsonText ''{'id':'spoof'}''))
        (Some (simplePayload\<lparr>Title := replicate 65 (CHR ''a''),
                              Data := Some [(''id'', VString ''spoof'')]\<rparr>))
       = Some (ValidationError ''title'' (TooLong ''title'' 65 64))"
  by code_simp

subsection \<open>C7: the format of the source field\<close>

lemma validateSourceFormat_rejects:
  assumes "strings_Contains source '' '' \<or> strings_Contains source ''..''
           \<or> (\<exists>ch \<in> set dangerousChars. strings_Contains source ch)"
  shows "validateSourceFormat source \<noteq> None"
proof (cases "firstContained source dangerousChars")
  case None
  with assms show ?thesis
    by (auto simp: validateSourceFormat_def firstContained_None_iff)
next
  case (Some ch)
  then show ?thesis
    by (simp add: validateSourceFormat_def)
qed

text \<open>
  Claim C7, as amended. A payload whose source is not empty is rejected whenever the
  source contains a space (the byte 0x20), one of the characters
  \<^verbatim>\<open>< > " ' & ; |\<close>, or two dots in a row. (Tab, line feed and carriage return are
  not among the characters that reject a source.)
\<close>

theorem source_format_rejected:
  assumes "Source p \<noteq> []"
    and "strings_Contains (Source p) '' '' \<or> strings_Contains (Source p) ''..''
         \<or> (\<exists>ch \<in> set dangerousChars. strings_Contains (Source p) ch)"
  shows "validateSourceFormat (Source p) \<noteq> None
         \<and> validateBusinessRules U p \<noteq> None
         \<and> Validate cfg U marshalled (Some p) \<noteq> None"
proof -
  from assms(2) have s: "validateSourceFormat (Source p) \<noteq> None"
    by (rule validateSourceFormat_rejects)
  with assms(1) have r: "validateBusinessRules U p \<noteq> None"
    by (auto simp: validateBusinessRules_def split: option.splits)
  then have "Validate cfg U marshalled (Some p) \<noteq> None"
    by (rule Validate_rejects_if_rules_reject)
  with s r show ?thesis
    by (intro conjI)
qed

theorem source_format_rejected_witness:
  "Source (simplePayload\<lparr>Source := ''api;example.com''\<rparr>) \<noteq> []
   \<and> (\<exists>ch \<in> set dangerousChars. strings_Contains (Source (simplePayload\<lparr>Source := ''api;example.com''\<rparr>)) ch)
   \<and> Validate defaultConfig asciiOnly (Inr (jsonText ''{'a':1}''))
        (Some (simplePayload\<lparr>Source := ''api;example.com''\<rparr>)) \<noteq> None"
proof -
  let ?p = "simplePayload\<lparr>Source := ''api;example.com''\<rparr>"
  have a: "Source ?p \<noteq> []"
    by (simp add: simplePayload_def)
  have b: "\<exists>ch \<in> set dangerousChars. strings_Contains (Source ?p) ch"
    by code_simp
  from source_format_rejected [OF a, of asciiOnly defaultConfig "Inr (jsonText ''{'a':1}'')"] b
  have "Validate defaultConfig asciiOnly (Inr (jsonText ''{'a':1}'')) (Some ?p) \<noteq> None"
    by blast
  with a b show ?thesis
    by (intro conjI)
qed

text \<open>
  The claim as it stands also rejects a source that holds a tab, a line feed or a
  carriage return. The payload of scenario 1 with such a source passes the whole
  validation: \<^verbatim>\<open>containsUnsafeCharacters\<close> lets these three control characters
  through and \<^verbatim>\<open>validateSourceFormat\<close> looks for the space only.
\<close>

theorem source_with_tab_accepted_counterexample:
  "strings_Contains (''api'' @ [CHR 0x09] @ ''east'') [CHR 0x09]
   \<and> Validate defaultConfig asciiOnly (Inr (jsonText ''{'a':1}''))
        (Some (simplePayload\<lparr>Source := ''api'' @ [CHR 0x09] @ ''east''\<rparr>)) = None
   \<and> Validate defaultConfig asciiOnly (Inr (jsonText ''{'a':1}''))
        (Some (simplePayload\<lparr>Source := ''api'' @ [CHR 0x0A] @ ''east''\<rparr>)) = None
   \<and> Validate defaultConfig asciiOnly (Inr (jsonText ''{'a':1}''))
        (Some (simplePayload\<lparr>Source := ''api'' @ [CHR 0x0D] @ ''east''\<rparr>)) = None"
  by code_simp

subsection \<open>C4: the identifier and the timestamp of the payload\<close>

lemma payload_case_sum:
  "(\<And>e. fst (snd (f e)) = q) \<Longrightarrow> (\<And>v. fst (snd (g v)) = q) \<Longrightarrow>
   fst (snd (case x of Inl e \<Rightarrow> f e | Inr v \<Rightarrow> g v)) = q"
  by (cases x) simp_all

lemma payload_case_option:
  "fst (snd a) = q \<Longrightarrow> (\<And>v. fst (snd (g v)) = q) \<Longrightarrow>
   fst (snd (case x of None \<Rightarrow> a | Some v \<Rightarrow> g v)) = q"
  by (cases x) simp_all

lemma payload_case_prod:
  "(\<And>a b. fst (snd (f a b)) = q) \<Longrightarrow> fst (snd (case x of (a, b) \<Rightarrow> f a b)) = q"
  by (cases x) simp_all

lemma payload_if:
  "fst (snd a) = q \<Longrightarrow> fst (snd b) = q \<Longrightarrow> fst (snd (if c then a else b)) = q"
  by simp

lemma Write_payload:
  "fst (snd (Write cfg env fs (Some p))) = Some (SetTimestamp env (GenerateID env p))"
proof -
  have c: "(if IsZero (Timestamp (if ID p = [] then GenerateID env p else p))
            then SetTimestamp env (if ID p = [] then GenerateID env p else p)
            else (if ID p = [] then GenerateID env p else p))
           = SetTimestamp env (GenerateID env p)"
    by (simp add: GenerateID_def SetTimestamp_def)
  show ?thesis
    unfolding Write_def Let_def c option.case
    by (intro payload_case_sum payload_case_option payload_case_prod payload_if)
       (simp_all only: fst_conv snd_conv)
qed

lemma uuid_String_not_empty: "uuid_String bs \<noteq> []"
  by (simp add: uuid_String_def Let_def)

text \<open>
  Claim C4. \<^verbatim>\<open>FileStoreImpl.Write\<close> leaves the payload as it was, except that an
  empty identifier is replaced by a new UUID and a zero timestamp by the current time:
  a value that is set is never overwritten and every other field (title, description,
  data, source, type) is unchanged. So a payload with both values set comes back as it
  was, and a second call changes nothing in the payload the first call has left (the
  new identifier is never empty; the clock is not at the zero time).
\<close>

theorem Write_sets_missing_metadata_only:
  "fst (snd (Write cfg env fs (Some p)))
     = Some (p\<lparr>ID := (if ID p = [] then uuid_String (uuidBytes env) else ID p),
               Timestamp := (if IsZero (Timestamp p) then now env else Timestamp p)\<rparr>)
   \<and> (ID p \<noteq> [] \<and> \<not> IsZero (Timestamp p) \<longrightarrow> fst (snd (Write cfg env fs (Some p))) = Some p)
   \<and> (\<not> IsZero (now env) \<longrightarrow>
        fst (snd (Write cfg2 env2 fs2 (fst (snd (Write cfg env fs (Some p))))))
          = fst (snd (Write cfg env fs (Some p))))"
proof (intro conjI impI)
  show "fst (snd (Write cfg env fs (Some p)))
     = Some (p\<lparr>ID := (if ID p = [] then uuid_String (uuidBytes env) else ID p),
               Timestamp := (if IsZero (Timestamp p) then now env else Timestamp p)\<rparr>)"
    by (simp add: Write_payload SetTimestamp_def GenerateID_def)
next
  assume "ID p \<noteq> [] \<and> \<not> IsZero (Timestamp p)"
  then show "fst (snd (Write cfg env fs (Some p))) = Some p"
    by (simp add: Write_payload SetTimestamp_def GenerateID_def)
next
  assume "\<not> IsZero (now env)"
  then show "fst (snd (Write cfg2 env2 fs2 (fst (snd (Write cfg env fs (Some p))))))
          = fst (snd (Write cfg env fs (Some p)))"
    by (simp add: Write_payload SetTimestamp_def GenerateID_def uuid_String_not_empty)
qed

text \<open>
  The witness: the payload of scenario 1, with no identifier and no timestamp, gets
  both; a payload that has both keeps them.
\<close>

theorem Write_sets_missing_metadata_only_witness:
  "fst (snd (Write defaultConfig exampleEnv emptyDisk (Some simplePayload)))
     = Some (simplePayload\<lparr>ID := ''abababab-abab-4bab-abab-abababababab'', Timestamp := 1700000000\<rparr>)
   \<and> ID (simplePayload\<lparr>ID := ''existing-id'', Timestamp := 42\<rparr>) \<noteq> []
   \<and> \<not> IsZero (Timestamp (simplePayload\<lparr>ID := ''existing-id'', Timestamp := 42\<rparr>))
   \<and> fst (snd (Write defaultConfig exampleEnv emptyDisk
                  (Some (simplePayload\<lparr>ID := ''existing-id'', Timestamp := 42\<rparr>))))
       = Some (simplePayload\<lparr>ID := ''existing-id'', Timestamp := 42\<rparr>)"
proof -
  let ?q = "simplePayload\<lparr>ID := ''existing-id'', Timestamp := 42\<rparr>"
  have u: "uuid_String (uuidBytes exampleEnv) = ''abababab-abab-4bab-abab-abababababab''"
    by code_simp
  have i: "ID simplePayload = []" "IsZero (Timestamp simplePayload)" "now exampleEnv = 1700000000"
    by (simp_all add: simplePayload_def IsZero_def exampleEnv_def)
  have a: "ID ?q \<noteq> []" and b: "\<not> IsZero (Timestamp ?q)"
    by (simp_all add: IsZero_def)
  from Write_sets_missing_metadata_only [of defaultConfig exampleEnv emptyDisk simplePayload]
  have c: "fst (snd (Write defaultConfig exampleEnv emptyDisk (Some simplePayload)))
     = Some (simplePayload\<lparr>ID := ''abababab-abab-4bab-abab-abababababab'', Timestamp := 1700000000\<rparr>)"
    by (simp add: u i)
  from Write_sets_missing_metadata_only [of defaultConfig exampleEnv emptyDisk ?q] a b
  have d: "fst (snd (Write defaultConfig exampleEnv emptyDisk (Some ?q))) = Some ?q"
    by blast
  from c a b d show ?thesis
    by (intro conjI)
qed

subsection \<open>Facts about path validation\<close>

lemma splitSep_not_Nil: "splitSep s \<noteq> []"
  by (induction s) (auto split: list.splits)

lemma splitSep_sublist: "e \<in> set (splitSep s) \<Longrightarrow> sublist e s"
proof (induction s arbitrary: e)
  case Nil
  then show ?case by simp
next
  case (Cons c s)
  show ?case
  proof (cases "c = CHR ''/''")
    case True
    with Cons.prems have "e = [] \<or> e \<in> set (splitSep s)"
      by simp
    with Cons.IH show ?thesis
      by (auto intro: sublist_Cons_right [THEN iffD2])
  next
    case False
    obtain h t where ht: "splitSep s = h # t"
      using splitSep_not_Nil [of s] by (cases "splitSep s") auto
    with False Cons.prems have "e = c # h \<or> e \<in> set t"
      by simp
    then show ?thesis
    proof
      assume e: "e = c # h"
      from ht have "h \<in> set (splitSep s)"
        by simp
      moreover have "prefix h s"
        using ht
      proof (induction s arbitrary: h t)
        case Nil
        then show ?case by simp
      next
        case (Cons d s)
        obtain h' t' where h't': "splitSep s = h' # t'"
          using splitSep_not_Nil [of s] by (cases "splitSep s") auto
        with Cons show ?case
          by (cases "d = CHR ''/''") auto
      qed
      ultimately show ?thesis
        using e by (auto intro: prefix_imp_sublist)
    next
      assume "e \<in> set t"
      with ht have "e \<in> set (splitSep s)"
        by simp
      with Cons.IH show ?thesis
        by (auto intro: sublist_Cons_right [THEN iffD2])
    qed
  qed
qed

lemma ValidatePath_contains_dotdot:
  assumes "path \<noteq> []" and "\<not> strings_Contains path [CHR 0x00]"
    and "length path \<le> MaxPathLength"
    and "strings_Contains (filepath_Clean path) ''..''"
  shows "ValidatePath wd path baseDir = Some ErrPathTraversal"
  using assms by (simp add: ValidatePath_def Let_def)

lemma ValidatePath_contains_dotdot_fails:
  assumes "strings_Contains (filepath_Clean path) ''..''"
  shows "ValidatePath wd path baseDir \<noteq> None"
  using assms by (simp add: ValidatePath_def Let_def)

subsection \<open>C1: paths with a parent-directory segment\<close>

text \<open>
  Claim C1, as amended. \<^verbatim>\<open>ValidatePath\<close> looks for \<^verbatim>\<open>..\<close> after the lexical
  cleaning of the path. For every path that is not empty, holds no NUL byte, is at
  most 4096 bytes long and whose cleaned form still has a \<^verbatim>\<open>..\<close> segment, it
  returns the path-traversal error, with or without a base directory; and it never
  succeeds on a path whose cleaned form has such a segment.
\<close>

theorem remaining_dotdot_segment_rejected:
  assumes "''..'' \<in> set (splitSep (filepath_Clean path))"
  shows "ValidatePath wd path baseDir \<noteq> None
         \<and> (path \<noteq> [] \<and> \<not> strings_Contains path [CHR 0x00] \<and> length path \<le> MaxPathLength
              \<longrightarrow> ValidatePath wd path baseDir = Some ErrPathTraversal)"
proof -
  from assms have "strings_Contains (filepath_Clean path) ''..''"
    unfolding strings_Contains_def by (rule splitSep_sublist)
  then show ?thesis
    using ValidatePath_contains_dotdot [of path wd baseDir]
      ValidatePath_contains_dotdot_fails [of path wd baseDir]
    by blast
qed

theorem remaining_dotdot_segment_rejected_witness:
  "''..'' \<in> set (splitSep (filepath_Clean ''subdir/../../../etc/passwd''))
   \<and> ''subdir/../../../etc/passwd'' \<noteq> []
   \<and> \<not> strings_Contains ''subdir/../../../etc/passwd'' [CHR 0x00]
   \<and> length ''subdir/../../../etc/passwd'' \<le> MaxPathLength
   \<and> ValidatePath (Inr ''/srv/app'') ''subdir/../../../etc/passwd'' ''/safe/storage''
       = Some ErrPathTraversal"
proof -
  have a: "''..'' \<in> set (splitSep (filepath_Clean ''subdir/../../../etc/passwd''))"
    by code_simp
  have b: "''subdir/../../../etc/passwd'' \<noteq> []"
    by simp
  have c: "\<not> strings_Contains ''subdir/../../../etc/passwd'' [CHR 0x00]"
    by code_simp
  have d: "length ''subdir/../../../etc/passwd'' \<le> MaxPathLength"
    by (simp add: MaxPathLength_def)
  from remaining_dotdot_segment_rejected [OF a, of "Inr ''/srv/app''" "''/safe/storage''"] b c d
  have "ValidatePath (Inr ''/srv/app'') ''subdir/../../../etc/passwd'' ''/safe/storage''
          = Some ErrPathTraversal"
    by blast
  with a b c d show ?thesis
    by (intro conjI)
qed

text \<open>
  The claim as it stands includes paths such as \<^verbatim>\<open>a/../b\<close>, whose \<^verbatim>\<open>..\<close> segment
  the cleaning resolves. \<^verbatim>\<open>ValidatePath\<close> accepts that path under the base
  directory \<^verbatim>\<open>/safe/storage\<close>: the cleaned path is \<^verbatim>\<open>b\<close>.
\<close>

theorem resolved_dotdot_segment_accepted_counterexample:
  "''..'' \<in> set (splitSep ''a/../b'')
   \<and> filepath_Clean ''a/../b'' = ''b''
   \<and> ValidatePath (Inr ''/srv/app'') ''a/../b'' ''/safe/storage'' = None"
  by code_simp

subsection \<open>Facts about generated file names\<close>

lemma strings_Trim_hd:
  assumes "strings_Trim s cs \<noteq> []"
  shows "hd (strings_Trim s cs) \<notin> set cs"
proof -
  let ?P = "\<lambda>c. c \<in> set cs"
  let ?d = "dropWhile ?P s"
  have split: "rev (dropWhile ?P (rev ?d)) @ rev (takeWhile ?P (rev ?d)) = ?d"
    by (metis rev_append rev_rev_ident takeWhile_dropWhile_id)
  from assms have ne: "rev (dropWhile ?P (rev ?d)) \<noteq> []"
    by (simp add: strings_Trim_def)
  with split have "hd (rev (dropWhile ?P (rev ?d))) = hd ?d" and "?d \<noteq> []"
    by (metis hd_append2, metis append_is_Nil_conv)
  moreover from \<open>?d \<noteq> []\<close> have "\<not> ?P (hd ?d)"
    by (rule hd_dropWhile)
  ultimately show ?thesis
    by (simp add: strings_Trim_def)
qed

lemma enforceLength_hd:
  assumes "s \<noteq> []"
  shows "enforceLength s \<noteq> [] \<and> hd (enforceLength s) = hd s"
proof (cases "length s > MaxFilenameLength")
  case False
  with assms show ?thesis
    by (simp add: enforceLength_def)
next
  case True
  let ?ext = "filepath_Ext s"
  have t: "take n s \<noteq> [] \<and> hd (take n s) = hd s" if "0 < n" for n
    using that assms by (cases s; cases n) auto
  show ?thesis
  proof (cases "length ?ext > 0 \<and> length ?ext < 10")
    case False
    with True have "enforceLength s = take MaxFilenameLength s"
      by (auto simp: enforceLength_def Let_def)
    with t [of MaxFilenameLength] show ?thesis
      by (simp add: MaxFilenameLength_def)
  next
    case ext: True
    let ?n = "nat (int MaxFilenameLength - int (length ?ext))"
    let ?m = "length s - length ?ext"
    from ext True have e: "enforceLength s = take ?n (take ?m s) @ ?ext"
      by (auto simp: enforceLength_def Let_def MaxFilenameLength_def)
    from ext True have "0 < ?n" "0 < ?m"
      by (auto simp: MaxFilenameLength_def)
    then have "0 < min ?n ?m"
      by simp
    with t [of "min ?n ?m"] have "take ?n (take ?m s) \<noteq> [] \<and> hd (take ?n (take ?m s)) = hd s"
      by (simp add: take_take)
    with e show ?thesis
      by simp
  qed
qed

lemma SanitizeFilename_result:
  assumes "SanitizeFilename U filename = Inr name"
  shows "(\<forall>c \<in> set name. safeNameChar c) \<and> length name \<le> MaxFilenameLength \<and> properName name"
proof -
  define cleaned where "cleaned = strings_TrimSpace filename"
  define sanitized where
    "sanitized = strings_Trim (collapseUnderscores (replaceUnsafe cleaned)) ''_.''"
  define sanitized2 where
    "sanitized2 = (if strings_ToUpper U (beforeFirstDot sanitized) \<in> set reservedNames
                   then CHR ''_'' # sanitized else sanitized)"
  from assms have name: "name = enforceLength sanitized2" and ne: "sanitized \<noteq> []"
    by (auto simp: SanitizeFilename_def Let_def cleaned_def sanitized_def sanitized2_def
             split: if_splits)
  have "\<forall>c \<in> set (replaceUnsafe cleaned). safeNameChar c"
    using safeNameChar_replaceUnsafe by blast
  then have "\<forall>c \<in> set sanitized. safeNameChar c"
    using set_collapseUnderscores set_strings_Trim unfolding sanitized_def by blast
  then have "\<forall>c \<in> set sanitized2. safeNameChar c"
    by (simp add: sanitized2_def safeNameChar_underscore)
  then have safe: "\<forall>c \<in> set name. safeNameChar c"
    using set_enforceLength [of sanitized2] unfolding name by blast
  have len: "length name \<le> MaxFilenameLength"
    unfolding name by (rule length_enforceLength)
  from ne have "hd sanitized \<notin> set ''_.''"
    unfolding sanitized_def by (rule strings_Trim_hd)
  then have "hd sanitized \<noteq> CHR ''.''"
    by simp
  with ne have "sanitized2 \<noteq> []" "hd sanitized2 \<noteq> CHR ''.''"
    by (simp_all add: sanitized2_def)
  with enforceLength_hd [of sanitized2] have "name \<noteq> []" "hd name \<noteq> CHR ''.''"
    by (simp_all add: name)
  moreover have "CHR ''/'' \<notin> set name"
  proof
    assume "CHR ''/'' \<in> set name"
    with safe have "safeNameChar CHR ''/''"
      by blast
    then show False
      by (simp add: safeNameChar_def)
  qed
  ultimately have "properName name"
    by (simp add: properName_def)
  with safe len show ?thesis
    by blast
qed

lemma hexDigit_byte:
  assumes "n < 16"
  shows "byte (hexDigit n) = (if n < 10 then 48 + n else 87 + n)"
  using assms by (simp add: hexDigit_def byte_def)

lemma hexDigit_not_separator:
  assumes "n < 16"
  shows "hexDigit n \<noteq> CHR ''/''"
proof
  assume "hexDigit n = CHR ''/''"
  then have "byte (hexDigit n) = 47"
    by (simp add: byte_def)
  with hexDigit_byte [OF assms] show False
    by (simp split: if_splits)
qed

lemma hex_EncodeToString_no_separator: "CHR ''/'' \<notin> set (hex_EncodeToString bs)"
proof -
  have "hexDigit (byte c div 16) \<noteq> CHR ''/'' \<and> hexDigit (byte c mod 16) \<noteq> CHR ''/''" for c
  proof -
    have "(of_char c :: nat) mod 256 < 256"
      by (rule mod_less_divisor) simp
    then have "byte c < 256"
      by (simp add: byte_def)
    then have "byte c div 16 < 16" "byte c mod 16 < 16"
      by simp_all
    then show ?thesis
      using hexDigit_not_separator by blast
  qed
  then have no: "CHR ''/'' \<noteq> hexDigit (byte c div 16) \<and> CHR ''/'' \<noteq> hexDigit (byte c mod 16)" for c
    by metis
  show ?thesis
  proof
    assume "CHR ''/'' \<in> set (hex_EncodeToString bs)"
    then obtain c where
      "CHR ''/'' = hexDigit (byte c div 16) \<or> CHR ''/'' = hexDigit (byte c mod 16)"
      by (auto simp: hex_EncodeToString_def)
    with no [of c] show False
      by blast
  qed
qed

lemma uitoa_no_separator: "CHR ''/'' \<notin> set (uitoa n)"
proof (induction n rule: uitoa.induct)
  case (1 n)
  have d: "char_of (48 + k) \<noteq> CHR ''/''" if "k < 10" for k :: nat
  proof
    assume "char_of (48 + k) = CHR ''/''"
    then have "(of_char (char_of (48 + k)) :: nat) = 47"
      by simp
    with that show False
      by simp
  qed
  show ?case
  proof (cases "n < 10")
    case True
    with d [of n] show ?thesis
      by (subst uitoa.simps) simp
  next
    case False
    with "1.IH" d [of "n mod 10"] show ?thesis
      by (subst uitoa.simps) simp
  qed
qed

lemma GenerateSecureFilename_fallback:
  assumes "GenerateSecureFilename U random ''webhook'' ''json'' = Inr name"
  shows "properName name"
proof -
  from assms obtain p where p: "SanitizeFilename U ''webhook'' = Inr p"
    by (cases "SanitizeFilename U ''webhook''") (simp_all add: GenerateSecureFilename_def)
  from assms p obtain bs where bs: "random = Inr bs"
    by (cases random) (simp_all add: GenerateSecureFilename_def)
  have j: "\<not> strings_HasPrefix ''json'' ''.''"
    by (simp add: strings_HasPrefix_def)
  from assms p bs j obtain e where e: "SanitizeFilename U ''json'' = Inr e"
    by (cases "SanitizeFilename U ''json''") (simp_all add: GenerateSecureFilename_def Let_def)
  from SanitizeFilename_result [OF p] have pp: "properName p"
    by blast
  from SanitizeFilename_result [OF e] have pe: "properName e"
    by blast
  from pp have "p \<noteq> []"
    by (simp add: properName_def)
  with assms p bs j e have name: "name = p @ ''_'' @ hex_EncodeToString bs @ ''.'' @ e"
    by (simp add: GenerateSecureFilename_def Let_def)
  from pp pe hex_EncodeToString_no_separator [of bs] show ?thesis
    unfolding name properName_def by auto
qed

lemma generateSecureFilename_properName:
  assumes "generateSecureFilename env payload = Inr name"
  shows "properName name"
proof -
  let ?f = "formatTime env (Timestamp payload) @ ''_'' @ ID payload @ ''_''
            @ (case SanitizeFilename (tables env) (Title payload) of
                 Inl err \<Rightarrow> ''webhook'' | Inr t \<Rightarrow> t) @ ''.json''"
  show ?thesis
  proof (cases "SanitizeFilename (tables env) ?f")
    case (Inr final)
    with assms have "name = final"
      by (simp add: generateSecureFilename_def Let_def)
    with SanitizeFilename_result [OF Inr] show ?thesis
      by blast
  next
    case (Inl err)
    with assms have "GenerateSecureFilename (tables env) (randomBytes env) ''webhook'' ''json''
                       = Inr name"
      by (simp add: generateSecureFilename_def Let_def split: sum.splits)
    then show ?thesis
      by (rule GenerateSecureFilename_fallback)
  qed
qed

subsection \<open>Facts about cleaned paths that end in a proper name\<close>

lemma splitSep_no_separator: "CHR ''/'' \<notin> set b \<Longrightarrow> splitSep b = [b]"
  by (induction b) auto

lemma splitSep_append:
  "splitSep (a @ CHR ''/'' # b) = splitSep a @ splitSep b"
proof (induction a)
  case Nil
  show ?case by simp
next
  case (Cons c a)
  obtain h t where "splitSep a = h # t"
    using splitSep_not_Nil [of a] by (cases "splitSep a") auto
  with Cons show ?case
    by (cases "c = CHR ''/''") auto
qed

lemma strings_Join_snoc:
  "strings_Join (xs @ [b]) sep = (if xs = [] then b else strings_Join xs sep @ sep @ b)"
proof (induction xs)
  case Nil
  show ?case by simp
next
  case (Cons x xs)
  then show ?case
    by (cases xs) auto
qed

lemma properName_not_dots:
  assumes "properName b"
  shows "b \<noteq> []" "b \<noteq> ''.''" "b \<noteq> ''..''" "CHR ''/'' \<notin> set b"
  using assms by (auto simp: properName_def)

lemma filepath_Clean_last_name:
  assumes "properName b" and "pre = [] \<or> last pre = CHR ''/''"
  shows "\<exists>pre'. (pre' = [] \<or> last pre' = CHR ''/'') \<and> filepath_Clean (pre @ b) = pre' @ b"
proof -
  note b = properName_not_dots [OF assms(1)]
  have "\<exists>xs. splitSep (pre @ b) = xs @ [b]"
  proof (cases "pre = []")
    case True
    with b(4) have "splitSep (pre @ b) = [] @ [b]"
      by (simp add: splitSep_no_separator)
    then show ?thesis
      by blast
  next
    case False
    with assms(2) have "pre = butlast pre @ [CHR ''/'']"
      by (metis append_butlast_last_id)
    then have e: "pre @ b = butlast pre @ CHR ''/'' # b"
      by (metis append_Cons append_Nil append_assoc)
    have "splitSep (butlast pre @ CHR ''/'' # b) = splitSep (butlast pre) @ [b]"
      using b(4) by (simp add: splitSep_append splitSep_no_separator)
    then have "splitSep (pre @ b) = splitSep (butlast pre) @ [b]"
      by (simp only: e)
    then show ?thesis
      by blast
  qed
  then obtain xs where xs: "splitSep (pre @ b) = xs @ [b]"
    by blast
  define rooted where "rooted = (hd (pre @ b) = CHR ''/'')"
  define out where "out = foldl (cleanStep rooted) [] xs"
  have step: "cleanStep rooted out b = b # out"
    using b by (simp add: cleanStep_def)
  have "foldl (cleanStep rooted) [] (xs @ [b]) = cleanStep rooted out b"
    by (simp add: out_def)
  with step have fold: "foldl (cleanStep rooted) [] (splitSep (pre @ b)) = b # out"
    by (simp only: xs)
  have join: "joinSep (rev (b # out))
                = (if out = [] then [] else joinSep (rev out) @ ''/'') @ b"
    by (simp add: strings_Join_snoc)
  define pre' where
    "pre' = (if rooted then ''/'' else []) @ (if out = [] then [] else joinSep (rev out) @ ''/'')"
  from b(1) have "pre @ b \<noteq> []"
    by simp
  then have "filepath_Clean (pre @ b) = pre' @ b"
    unfolding filepath_Clean_def Let_def rooted_def [symmetric] fold pre'_def join
    by simp
  moreover have "pre' = [] \<or> last pre' = CHR ''/''"
    by (simp add: pre'_def)
  ultimately show ?thesis
    by blast
qed

lemma filepath_Join_last_name:
  assumes "properName b"
  shows "\<exists>pre'. (pre' = [] \<or> last pre' = CHR ''/'') \<and> filepath_Join [storage, b] = pre' @ b"
proof (cases "storage = []")
  case True
  with properName_not_dots(1) [OF assms] have "filepath_Join [storage, b] = filepath_Clean ([] @ b)"
    by (simp add: filepath_Join_def)
  with filepath_Clean_last_name [OF assms, of "[]"] show ?thesis
    by simp
next
  case False
  then have "filepath_Join [storage, b] = filepath_Clean ((storage @ ''/'') @ b)"
    by (simp add: filepath_Join_def)
  with filepath_Clean_last_name [OF assms, of "storage @ ''/''"] show ?thesis
    by simp
qed

lemma last_element_unique:
  assumes "pre = [] \<or> last pre = CHR ''/''" and "CHR ''/'' \<notin> set b"
  shows "rev (takeWhile (\<lambda>c. c \<noteq> CHR ''/'') (rev (pre @ b))) = b"
proof -
  have "x \<noteq> CHR ''/''" if "x \<in> set (rev b)" for x
    using that assms(2) by auto
  then have split: "takeWhile (\<lambda>c. c \<noteq> CHR ''/'') (rev b @ rev pre)
                      = rev b @ takeWhile (\<lambda>c. c \<noteq> CHR ''/'') (rev pre)"
    by (rule takeWhile_append2)
  have "takeWhile (\<lambda>c. c \<noteq> CHR ''/'') (rev pre) = []"
  proof (cases "pre = []")
    case True
    then show ?thesis
      by simp
  next
    case False
    with assms(1) have "hd (rev pre) = CHR ''/''" "rev pre \<noteq> []"
      by (simp_all add: hd_rev)
    then show ?thesis
      by (cases "rev pre") auto
  qed
  with split show ?thesis
    by simp
qed

lemma tempName_not_destination:
  assumes "properName b" and "pre = [] \<or> last pre = CHR ''/''"
  shows "tempName env dir \<noteq> pre @ b"
proof
  assume eq: "tempName env dir = pre @ b"
  define rest where "rest = ''tmp-webhook-'' @ uitoa (tempRandom env)"
  define D where "D = (if dir \<noteq> [] \<and> last dir = CHR ''/'' then dir else dir @ ''/'')"
  have t: "tempName env dir = D @ (CHR ''.'' # rest)"
    by (simp add: tempName_def D_def rest_def)
  have D: "D = [] \<or> last D = CHR ''/''"
    by (simp add: D_def)
  have "CHR ''/'' \<notin> set (CHR ''.'' # rest)"
    using uitoa_no_separator [of "tempRandom env"] by (simp add: rest_def)
  from last_element_unique [OF D this] t
  have "rev (takeWhile (\<lambda>c. c \<noteq> CHR ''/'') (rev (tempName env dir))) = CHR ''.'' # rest"
    by simp
  moreover from last_element_unique [OF assms(2) properName_not_dots(4) [OF assms(1)]] eq
  have "rev (takeWhile (\<lambda>c. c \<noteq> CHR ''/'') (rev (tempName env dir))) = b"
    by simp
  ultimately have "b = CHR ''.'' # rest"
    by simp
  with assms(1) show False
    by (simp add: properName_def)
qed

subsection \<open>Facts about the atomic write\<close>

lemma os_CreateTemp_effect:
  assumes "os_CreateTemp env fs dir = (r, fs0)"
  shows "(\<exists>err. r = Inl err \<and> fs0 = fs)
         \<or> (r = Inr (tempName env dir) \<and> files fs (tempName env dir) = None
            \<and> fs0 = fs\<lparr>files := (files fs)(tempName env dir \<mapsto> ([], 384))\<rparr>)"
  using assms by (auto simp: os_CreateTemp_def Let_def split: if_splits)

lemma file_Write_effect:
  assumes "file_Write env fs t data = (r, fs1)"
  shows "\<exists>f. fs1 = fs\<lparr>files := (files fs)(t \<mapsto> f)\<rparr>"
  using assms by (auto simp: file_Write_def split: if_splits)

lemma os_Chmod_effect:
  assumes "os_Chmod env fs t m = (r, fs2)"
  shows "fs2 = fs \<or> (\<exists>f. fs2 = fs\<lparr>files := (files fs)(t \<mapsto> f)\<rparr>)"
proof (cases "files fs t")
  case None
  with assms show ?thesis
    by (simp add: os_Chmod_def)
next
  case (Some f)
  obtain content mode where f: "f = (content, mode)"
    by (cases f)
  show ?thesis
  proof (cases "fails env SysChmod")
    case True
    with assms Some f show ?thesis
      by (simp add: os_Chmod_def)
  next
    case False
    with assms Some f have "fs2 = fs\<lparr>files := (files fs)(t \<mapsto> (content, m))\<rparr>"
      by (simp add: os_Chmod_def)
    then show ?thesis
      by blast
  qed
qed

lemma os_Rename_failure:
  assumes "os_Rename env fs t filePath = (Some err, fs3)"
  shows "fs3 = fs"
  using assms by (auto simp: os_Rename_def split: if_splits option.splits)

lemma cleanup_effect:
  "cleanup env fs t = fs \<or> (\<not> fails env SysRemove \<and> cleanup env fs t = fs\<lparr>files := (files fs)(t := None)\<rparr>)"
  by (simp add: cleanup_def os_Remove_def)

lemma cleanup_removes:
  "\<not> fails env SysRemove \<Longrightarrow> cleanup env fs t = fs\<lparr>files := (files fs)(t := None)\<rparr>"
  by (cases fs) (auto simp: cleanup_def os_Remove_def)

lemma sameExcept_refl: "sameExcept t fs fs"
  by (simp add: sameExcept_def)

lemma sameExcept_trans: "sameExcept t a b \<Longrightarrow> sameExcept t b c \<Longrightarrow> sameExcept t a c"
  by (simp add: sameExcept_def)

lemma sameExcept_upd: "sameExcept t fs (fs\<lparr>files := (files fs)(t := x)\<rparr>)"
  by (simp add: sameExcept_def)

lemma sameExcept_cleanup: "sameExcept t fs (cleanup env fs t)"
  using cleanup_effect [of env fs t] by (auto simp: sameExcept_def)

lemma writeFileAtomically_failure:
  assumes "writeFileAtomically env fs filePath data = (Some err, fs')"
  shows "sameExcept (tempName env (filepath_Dir filePath)) fs fs'"
    and "\<not> fails env SysRemove \<Longrightarrow> fs' = fs"
proof -
  let ?t = "tempName env (filepath_Dir filePath)"
  obtain r fs0 where c: "os_CreateTemp env fs (filepath_Dir filePath) = (r, fs0)"
    by (cases "os_CreateTemp env fs (filepath_Dir filePath)")
  have "sameExcept ?t fs fs' \<and> (\<not> fails env SysRemove \<longrightarrow> fs' = fs)"
  proof (cases r)
    case (Inl e)
    with c assms have "fs' = fs0"
      by (simp add: writeFileAtomically_def)
    moreover from os_CreateTemp_effect [OF c] Inl have "fs0 = fs"
      by auto
    ultimately show ?thesis
      by (simp add: sameExcept_refl)
  next
    case (Inr tempPath)
    with os_CreateTemp_effect [OF c]
    have t: "tempPath = ?t" and fresh: "files fs ?t = None"
      and fs0: "fs0 = fs\<lparr>files := (files fs)(?t \<mapsto> ([], 384))\<rparr>"
      by auto
    obtain r1 fs1 where w: "file_Write env fs0 ?t data = (r1, fs1)"
      by (cases "file_Write env fs0 ?t data")
    from file_Write_effect [OF w] obtain f1 where
      fs1: "fs1 = fs0\<lparr>files := (files fs0)(?t \<mapsto> f1)\<rparr>"
      by blast
    obtain r2 fs2 where m: "os_Chmod env fs1 ?t 420 = (r2, fs2)"
      by (cases "os_Chmod env fs1 ?t 420")
    from os_Chmod_effect [OF m] have fs2: "fs2 = fs1 \<or> (\<exists>f. fs2 = fs1\<lparr>files := (files fs1)(?t \<mapsto> f)\<rparr>)" .
    obtain r3 fs3 where n: "os_Rename env fs2 ?t filePath = (r3, fs3)"
      by (cases "os_Rename env fs2 ?t filePath")
    from assms c Inr t w m n
    have "fs' = cleanup env fs1 ?t \<or> fs' = cleanup env fs2 ?t
          \<or> (r3 \<noteq> None \<and> fs' = cleanup env fs3 ?t)"
      by (auto simp: writeFileAtomically_def split: option.splits)
    moreover have "r3 \<noteq> None \<Longrightarrow> fs3 = fs2"
      using os_Rename_failure n by auto
    ultimately have fs': "fs' = cleanup env fs1 ?t \<or> fs' = cleanup env fs2 ?t"
      by auto
    from fs0 fs1 have p1: "fs1 = fs\<lparr>files := (files fs)(?t \<mapsto> f1)\<rparr>"
      by simp
    have p2: "\<exists>f. fs2 = fs\<lparr>files := (files fs)(?t \<mapsto> f)\<rparr>"
      using fs2
    proof
      assume "fs2 = fs1"
      with p1 show ?thesis
        by blast
    next
      assume "\<exists>f. fs2 = fs1\<lparr>files := (files fs1)(?t \<mapsto> f)\<rparr>"
      then obtain f where "fs2 = fs1\<lparr>files := (files fs1)(?t \<mapsto> f)\<rparr>"
        by blast
      with p1 have "fs2 = fs\<lparr>files := (files fs)(?t \<mapsto> f)\<rparr>"
        by simp
      then show ?thesis
        by blast
    qed
    from p1 have p1': "\<exists>f. fs1 = fs\<lparr>files := (files fs)(?t \<mapsto> f)\<rparr>"
      by blast
    note pre = p1' p2
    have "sameExcept ?t fs (cleanup env x ?t) \<and> (\<not> fails env SysRemove \<longrightarrow> cleanup env x ?t = fs)"
      if "\<exists>f. x = fs\<lparr>files := (files fs)(?t \<mapsto> f)\<rparr>" for x
    proof -
      from that obtain f where x: "x = fs\<lparr>files := (files fs)(?t \<mapsto> f)\<rparr>"
        by blast
      have "sameExcept ?t fs x"
        unfolding x by (rule sameExcept_upd)
      then have a: "sameExcept ?t fs (cleanup env x ?t)"
        using sameExcept_cleanup sameExcept_trans by blast
      have same: "(files fs)(?t := None) = files fs"
        using fresh by (metis fun_upd_triv)
      have "cleanup env x ?t = fs" if "\<not> fails env SysRemove"
        using cleanup_removes [OF that, of x ?t] unfolding x by (simp add: same)
      with a show ?thesis
        by blast
    qed
    with pre fs' show ?thesis
      by blast
  qed
  then show "sameExcept (tempName env (filepath_Dir filePath)) fs fs'"
    and "\<not> fails env SysRemove \<Longrightarrow> fs' = fs"
    by blast+
qed

lemma writeFileAtomically_step_fails:
  assumes "fails env c"
    and "c \<in> {SysCreateTemp, SysWrite, SysSync, SysClose, SysChmod, SysRename}"
  shows "fst (writeFileAtomically env fs filePath data) \<noteq> None"
proof -
  have "fst (writeFileAtomically env fs filePath data) = None \<Longrightarrow>
        \<not> fails env SysCreateTemp \<and> \<not> fails env SysWrite \<and> \<not> fails env SysSync
        \<and> \<not> fails env SysClose \<and> \<not> fails env SysChmod \<and> \<not> fails env SysRename"
    by (auto simp: writeFileAtomically_def Let_def os_CreateTemp_def file_Write_def
          file_Sync_def file_Close_def os_Chmod_def os_Rename_def
          split: if_splits option.splits prod.splits sum.splits)
  with assms show ?thesis
    by auto
qed

subsection \<open>Facts about \<^verbatim>\<open>FileStoreImpl.Write\<close>\<close>

lemma ensureDirectoryExists_files:
  assumes "ensureDirectoryExists env fs d = (r, fs1)"
  shows "files fs1 = files fs"
proof (cases "ValidatePath (getwd env) d []")
  case (Some err)
  with assms show ?thesis
    by (simp add: ensureDirectoryExists_def)
next
  case None
  show ?thesis
  proof (cases "os_Stat env fs d")
    case (Inr info)
    with None assms show ?thesis
      by (cases "info = IsDir") (simp_all add: ensureDirectoryExists_def)
  next
    case (Inl err)
    show ?thesis
    proof (cases "err = ErrNotExist")
      case False
      with None Inl assms show ?thesis
        by (simp add: ensureDirectoryExists_def)
    next
      case True
      obtain a b where m: "os_MkdirAll env fs d = (a, b)"
        by (cases "os_MkdirAll env fs d")
      then have "files b = files fs"
        by (cases "fails env SysMkdirAll";
            cases "files fs d \<noteq> None \<or> list_ex (\<lambda>q. files fs q \<noteq> None) (ancestors d)")
           (auto simp: os_MkdirAll_def)
      with None Inl True m assms show ?thesis
        by (cases a) (simp_all add: ensureDirectoryExists_def)
    qed
  qed
qed

text \<open>
  The two ways in which \<^verbatim>\<open>Write\<close> ends: before the atomic write, with an error of
  an earlier stage and no file changed; or with the result of the atomic write, on the
  path made of the storage directory and the generated name.
\<close>

lemma Write_cases:
  fixes cfg env fs p
  defines "q \<equiv> SetTimestamp env (GenerateID env p)"
  shows "(\<exists>stage path e fs1.
            Write cfg env fs (Some p) = (Inl (FileError stage path e), Some q, fs1)
            \<and> stage \<noteq> ''atomic write'' \<and> files fs1 = files fs)
         \<or> (\<exists>name fs1 data.
              generateSecureFilename env q = Inr name \<and> files fs1 = files fs
              \<and> IsSecurePath (tables env) (getwd env) (filepath_Join [StoragePath cfg, name])
                   (StoragePath cfg) = None
              \<and> Write cfg env fs (Some p)
                  = (case writeFileAtomically env fs1 (filepath_Join [StoragePath cfg, name]) data of
                       (Some err, fs2) \<Rightarrow>
                         (Inl (FileError ''atomic write'' (filepath_Join [StoragePath cfg, name]) err),
                          Some q, fs2)
                     | (None, fs2) \<Rightarrow> (Inr (filepath_Join [StoragePath cfg, name]), Some q, fs2)))"
proof -
  have c: "(if IsZero (Timestamp (if ID p = [] then GenerateID env p else p))
            then SetTimestamp env (if ID p = [] then GenerateID env p else p)
            else (if ID p = [] then GenerateID env p else p)) = q"
    by (simp add: q_def GenerateID_def SetTimestamp_def)
  note W = Write_def [of cfg env fs "Some p", unfolded Let_def c option.case]
  show ?thesis
  proof (cases "generateSecureFilename env q")
    case (Inl err)
    then have "Write cfg env fs (Some p) = (Inl (FileError ''filename generation'' [] err), Some q, fs)"
      by (simp add: W)
    then show ?thesis
      by simp
  next
    case gen: (Inr name)
    let ?path = "filepath_Join [StoragePath cfg, name]"
    show ?thesis
    proof (cases "IsSecurePath (tables env) (getwd env) ?path (StoragePath cfg)")
      case (Some err)
      with gen have "Write cfg env fs (Some p) = (Inl (FileError ''path validation'' ?path err), Some q, fs)"
        by (simp add: W)
      then show ?thesis
        by simp
    next
      case sec: None
      obtain r fs1 where ens: "ensureDirectoryExists env fs (filepath_Dir ?path) = (r, fs1)"
        by (cases "ensureDirectoryExists env fs (filepath_Dir ?path)")
      from ensureDirectoryExists_files [OF ens] have f1: "files fs1 = files fs" .
      show ?thesis
      proof (cases r)
        case (Some err)
        with gen sec ens
        have "Write cfg env fs (Some p)
                = (Inl (FileError ''directory creation'' (filepath_Dir ?path) err), Some q, fs1)"
          by (simp add: W)
        with f1 show ?thesis
          by simp
      next
        case dir: None
        show ?thesis
        proof (cases "marshalIndent env")
          case (Inl err)
          with gen sec ens dir
          have "Write cfg env fs (Some p) = (Inl (FileError ''json marshaling'' ?path err), Some q, fs1)"
            by (simp add: W)
          with f1 show ?thesis
            by simp
        next
          case mar: (Inr data)
          show ?thesis
          proof (cases "int (length data) > MaxFileSize cfg")
            case True
            with gen sec ens dir mar
            have "Write cfg env fs (Some p)
                    = (Inl (FileError ''size validation'' ?path
                              (SizeExceeds (length data) (MaxFileSize cfg))), Some q, fs1)"
              by (simp add: W)
            with f1 show ?thesis
              by simp
          next
            case False
            with gen sec ens dir mar
            have "Write cfg env fs (Some p)
                    = (case writeFileAtomically env fs1 ?path data of
                         (Some err, fs2) \<Rightarrow> (Inl (FileError ''atomic write'' ?path err), Some q, fs2)
                       | (None, fs2) \<Rightarrow> (Inr ?path, Some q, fs2))"
              by (simp add: W)
            with gen f1 sec show ?thesis
              by blast
          qed
        qed
      qed
    qed
  qed
qed

lemma tempName_not_generated_path:
  assumes "generateSecureFilename env q = Inr name"
  shows "tempName env2 dir \<noteq> filepath_Join [storage, name]"
proof -
  from assms have pn: "properName name"
    by (rule generateSecureFilename_properName)
  from filepath_Join_last_name [OF pn, of storage]
  obtain pre where pre: "pre = [] \<or> last pre = CHR ''/''"
    and j: "filepath_Join [storage, name] = pre @ name"
    by blast
  from tempName_not_destination [OF pn pre, of env2 dir] j show ?thesis
    by simp
qed

lemma Write_atomic_failure:
  assumes "Write cfg env fs (Some p) = (Inl (FileError ''atomic write'' path e), p', fs')"
  shows "files fs' path = files fs path"
    and "\<forall>t. t \<noteq> tempName env (filepath_Dir path) \<longrightarrow> files fs' t = files fs t"
    and "\<not> fails env SysRemove \<Longrightarrow> files fs' = files fs"
proof -
  let ?q = "SetTimestamp env (GenerateID env p)"
  from Write_cases [of cfg env fs p] assms
  obtain name fs1 data where gen: "generateSecureFilename env ?q = Inr name"
    and f1: "files fs1 = files fs"
    and w: "(case writeFileAtomically env fs1 (filepath_Join [StoragePath cfg, name]) data of
               (Some err, fs2) \<Rightarrow>
                 (Inl (FileError ''atomic write'' (filepath_Join [StoragePath cfg, name]) err),
                  Some ?q, fs2)
             | (None, fs2) \<Rightarrow> (Inr (filepath_Join [StoragePath cfg, name]), Some ?q, fs2))
            = (Inl (FileError ''atomic write'' path e), p', fs')"
    by auto
  let ?path = "filepath_Join [StoragePath cfg, name]"
  obtain r fs2 where a: "writeFileAtomically env fs1 ?path data = (r, fs2)"
    by (cases "writeFileAtomically env fs1 ?path data")
  with w obtain err where r: "r = Some err"
    by (cases r) simp_all
  with a w have eq: "path = ?path" "e = err" "fs' = fs2"
    by simp_all
  from a r have a': "writeFileAtomically env fs1 path data = (Some err, fs')"
    by (simp add: eq)
  from writeFileAtomically_failure(1) [OF a']
  have s: "\<forall>t. t \<noteq> tempName env (filepath_Dir path) \<longrightarrow> files fs' t = files fs1 t"
    by (simp add: sameExcept_def)
  with f1 show "\<forall>t. t \<noteq> tempName env (filepath_Dir path) \<longrightarrow> files fs' t = files fs t"
    by simp
  from tempName_not_generated_path [OF gen, of env "filepath_Dir path" "StoragePath cfg"]
  have "path \<noteq> tempName env (filepath_Dir path)"
    by (simp add: eq(1))
  with s f1 show "files fs' path = files fs path"
    by simp
  show "files fs' = files fs" if "\<not> fails env SysRemove"
    using writeFileAtomically_failure(2) [OF a' that] f1 by simp
qed

lemma Write_step_fails:
  assumes "fails env c"
    and "c \<in> {SysCreateTemp, SysWrite, SysSync, SysClose, SysChmod, SysRename}"
  shows "\<exists>e. fst (Write cfg env fs (Some p)) = Inl e"
proof -
  let ?q = "SetTimestamp env (GenerateID env p)"
  from Write_cases [of cfg env fs p]
  consider (early) stage path e fs1
      where "Write cfg env fs (Some p) = (Inl (FileError stage path e), Some ?q, fs1)"
    | (atomic) name fs1 data
      where "Write cfg env fs (Some p)
               = (case writeFileAtomically env fs1 (filepath_Join [StoragePath cfg, name]) data of
                    (Some err, fs2) \<Rightarrow>
                      (Inl (FileError ''atomic write'' (filepath_Join [StoragePath cfg, name]) err),
                       Some ?q, fs2)
                  | (None, fs2) \<Rightarrow> (Inr (filepath_Join [StoragePath cfg, name]), Some ?q, fs2))"
    by blast
  then show ?thesis
  proof cases
    case early
    then show ?thesis
      by simp
  next
    case atomic
    let ?path = "filepath_Join [StoragePath cfg, name]"
    obtain r fs2 where a: "writeFileAtomically env fs1 ?path data = (r, fs2)"
      by (cases "writeFileAtomically env fs1 ?path data")
    from writeFileAtomically_step_fails [OF assms, of fs1 ?path data] a
    obtain err where "r = Some err"
      by (cases r) simp_all
    with a atomic show ?thesis
      by simp
  qed
qed

text \<open>
  The run of \<^verbatim>\<open>Write\<close> step by step, for the evaluation of examples: up to the
  atomic write, and up to a failing check of the path.
\<close>

lemma Write_reaches_atomic_write:
  assumes "generateSecureFilename env (SetTimestamp env (GenerateID env p)) = Inr name"
    and "filepath_Join [StoragePath cfg, name] = path"
    and "IsSecurePath (tables env) (getwd env) path (StoragePath cfg) = None"
    and "ensureDirectoryExists env fs (filepath_Dir path) = (None, fs1)"
    and "marshalIndent env = Inr data"
    and "int (length data) \<le> MaxFileSize cfg"
    and "fst (writeFileAtomically env fs1 path data) = r"
  shows "fst (Write cfg env fs (Some p))
           = (case r of Some err \<Rightarrow> Inl (FileError ''atomic write'' path err) | None \<Rightarrow> Inr path)"
proof -
  have c: "(if IsZero (Timestamp (if ID p = [] then GenerateID env p else p))
            then SetTimestamp env (if ID p = [] then GenerateID env p else p)
            else (if ID p = [] then GenerateID env p else p))
           = SetTimestamp env (GenerateID env p)"
    by (simp add: GenerateID_def SetTimestamp_def)
  note W = Write_def [of cfg env fs "Some p", unfolded Let_def c option.case]
  obtain r' fs2 where a: "writeFileAtomically env fs1 path data = (r', fs2)"
    by (cases "writeFileAtomically env fs1 path data")
  with assms(7) have r: "r' = r"
    by simp
  from assms(1-6) a r show ?thesis
    by (cases r) (simp_all add: W)
qed

lemma Write_path_validation:
  assumes "generateSecureFilename env (SetTimestamp env (GenerateID env p)) = Inr name"
    and "IsSecurePath (tables env) (getwd env) (filepath_Join [StoragePath cfg, name])
           (StoragePath cfg) = Some err"
  shows "Write cfg env fs (Some p)
           = (Inl (FileError ''path validation'' (filepath_Join [StoragePath cfg, name]) err),
              Some (SetTimestamp env (GenerateID env p)), fs)"
proof -
  have c: "(if IsZero (Timestamp (if ID p = [] then GenerateID env p else p))
            then SetTimestamp env (if ID p = [] then GenerateID env p else p)
            else (if ID p = [] then GenerateID env p else p))
           = SetTimestamp env (GenerateID env p)"
    by (simp add: GenerateID_def SetTimestamp_def)
  note W = Write_def [of cfg env fs "Some p", unfolded Let_def c option.case]
  from assms show ?thesis
    by (simp add: W)
qed

subsection \<open>C3: a failing atomic write\<close>

text \<open>
  Claim C3. If a step of the atomic write fails (the creation of the temporary file,
  the write, the sync, the close, the change of mode or the rename),
  \<^verbatim>\<open>writeFileAtomically\<close> returns an error and so does \<^verbatim>\<open>FileStoreImpl.Write\<close>.
  Whenever \<^verbatim>\<open>writeFileAtomically\<close> returns an error, the directories and every
  file but the temporary one are as they were before the call, and the temporary file
  is gone unless its removal fails too (the error of the removal is ignored). For
  \<^verbatim>\<open>Write\<close>, whose destination is never the temporary name, this means: when it
  returns the error of the atomic write for the path \<open>path\<close>, the file system has at
  \<open>path\<close> what it had before the call (nothing, or the old file with its old content),
  every name other than the temporary one is as it was, and no file at all has changed
  when the removal of the temporary file does not fail.
\<close>

theorem failed_atomic_write_leaves_destination:
  "(fails env c \<and> c \<in> {SysCreateTemp, SysWrite, SysSync, SysClose, SysChmod, SysRename} \<longrightarrow>
      fst (writeFileAtomically env fs filePath data) \<noteq> None
      \<and> (\<exists>e. fst (Write cfg env fs (Some p)) = Inl e))
   \<and> (writeFileAtomically env fs filePath data = (Some err, fs') \<longrightarrow>
        sameExcept (tempName env (filepath_Dir filePath)) fs fs'
        \<and> (\<not> fails env SysRemove \<longrightarrow> fs' = fs))
   \<and> (Write cfg env fs (Some p) = (Inl (FileError ''atomic write'' path e), p', fs'') \<longrightarrow>
        files fs'' path = files fs path
        \<and> (\<forall>t. t \<noteq> tempName env (filepath_Dir path) \<longrightarrow> files fs'' t = files fs t)
        \<and> (\<not> fails env SysRemove \<longrightarrow> files fs'' = files fs))"
proof (intro conjI impI)
  assume a: "fails env c \<and> c \<in> {SysCreateTemp, SysWrite, SysSync, SysClose, SysChmod, SysRename}"
  then show "fst (writeFileAtomically env fs filePath data) \<noteq> None"
    using writeFileAtomically_step_fails [of env c fs filePath data] by simp
  from a show "\<exists>e. fst (Write cfg env fs (Some p)) = Inl e"
    using Write_step_fails [of env c cfg fs p] by simp
next
  assume a: "writeFileAtomically env fs filePath data = (Some err, fs')"
  then show "sameExcept (tempName env (filepath_Dir filePath)) fs fs'"
    by (rule writeFileAtomically_failure(1))
  show "fs' = fs" if "\<not> fails env SysRemove"
    using a that by (rule writeFileAtomically_failure(2))
next
  assume a: "Write cfg env fs (Some p) = (Inl (FileError ''atomic write'' path e), p', fs'')"
  then show "files fs'' path = files fs path"
    by (rule Write_atomic_failure(1))
  from a show "\<forall>t. t \<noteq> tempName env (filepath_Dir path) \<longrightarrow> files fs'' t = files fs t"
    by (rule Write_atomic_failure(2))
  show "files fs'' = files fs" if "\<not> fails env SysRemove"
    using a that by (rule Write_atomic_failure(3))
qed

text \<open>
  The witness: the storage directory holds an older file at the destination, and the
  write to the temporary file fails after 3 bytes. \<^verbatim>\<open>Write\<close> returns the error of
  the atomic write, the older file is as it was, and the temporary file is gone.
\<close>

theorem failed_atomic_write_leaves_destination_witness:
  "fails (exampleEnv\<lparr>fails := (\<lambda>c. c = SysWrite), written := 3\<rparr>) SysWrite
   \<and> SysWrite \<in> {SysCreateTemp, SysWrite, SysSync, SysClose, SysChmod, SysRename}
   \<and> \<not> fails (exampleEnv\<lparr>fails := (\<lambda>c. c = SysWrite), written := 3\<rparr>) SysRemove
   \<and> fst (Write defaultConfig (exampleEnv\<lparr>fails := (\<lambda>c. c = SysWrite), written := 3\<rparr>)
            \<lparr>dirs = {''storage''},
             files = [''storage/2025-11-03_10-00-00_id1_X.json'' \<mapsto> (''old'', 420)]\<rparr>
            (Some (simplePayload\<lparr>ID := ''id1'', Timestamp := 42\<rparr>)))
       = Inl (FileError ''atomic write'' ''storage/2025-11-03_10-00-00_id1_X.json''
                (Wrap ''failed to write to temporary file'' (OSError SysWrite)))
   \<and> files (snd (snd (Write defaultConfig
                          (exampleEnv\<lparr>fails := (\<lambda>c. c = SysWrite), written := 3\<rparr>)
                          \<lparr>dirs = {''storage''},
                           files = [''storage/2025-11-03_10-00-00_id1_X.json''
                                      \<mapsto> (''old'', 420)]\<rparr>
                          (Some (simplePayload\<lparr>ID := ''id1'', Timestamp := 42\<rparr>)))))
       = [''storage/2025-11-03_10-00-00_id1_X.json'' \<mapsto> (''old'', 420)]"
proof -
  let ?env = "exampleEnv\<lparr>fails := (\<lambda>c. c = SysWrite), written := 3\<rparr>"
  let ?p = "simplePayload\<lparr>ID := ''id1'', Timestamp := 42\<rparr>"
  let ?name = "''2025-11-03_10-00-00_id1_X.json''"
  let ?path = "''storage/2025-11-03_10-00-00_id1_X.json''"
  let ?fs = "\<lparr>dirs = {''storage''}, files = [?path \<mapsto> (''old'', 420)]\<rparr>"
  let ?e = "Wrap ''failed to write to temporary file'' (OSError SysWrite)"
  let ?w = "Write defaultConfig ?env ?fs (Some ?p)"
  have f: "fails ?env SysWrite"
    by simp
  have m: "SysWrite \<in> {SysCreateTemp, SysWrite, SysSync, SysClose, SysChmod, SysRename}"
    by simp
  have r: "\<not> fails ?env SysRemove"
    by simp
  have q: "SetTimestamp ?env (GenerateID ?env ?p) = ?p"
    by (simp add: SetTimestamp_def GenerateID_def IsZero_def)
  have "generateSecureFilename ?env ?p = Inr ?name"
    by code_simp
  then have gen: "generateSecureFilename ?env (SetTimestamp ?env (GenerateID ?env ?p)) = Inr ?name"
    by (simp only: q)
  have j: "filepath_Join [StoragePath defaultConfig, ?name] = ?path"
    by code_simp
  have "IsSecurePath (tables exampleEnv) (getwd exampleEnv) ?path (StoragePath defaultConfig) = None"
    by code_simp
  then have sec: "IsSecurePath (tables ?env) (getwd ?env) ?path (StoragePath defaultConfig) = None"
    by simp
  have d: "filepath_Dir ?path = ''storage''"
    by code_simp
  have "ValidatePath (getwd exampleEnv) ''storage'' [] = None"
    by code_simp
  moreover have "ancestors ''storage'' = []"
    by code_simp
  ultimately have ens: "ensureDirectoryExists ?env ?fs (filepath_Dir ?path) = (None, ?fs)"
    by (simp add: d ensureDirectoryExists_def os_Stat_def)
  have mar: "marshalIndent ?env = Inr (jsonText ''{'title': 'X'}'')"
    by (simp add: exampleEnv_def)
  have size: "int (length (jsonText ''{'title': 'X'}'')) \<le> MaxFileSize defaultConfig"
    by (simp add: jsonText_def defaultConfig_def)
  have t: "tempName exampleEnv ''storage'' = ''storage/.tmp-webhook-305''"
    by code_simp
  then have t': "tempName ?env ''storage'' = ''storage/.tmp-webhook-305''"
    by (simp add: tempName_def)
  have a: "fst (writeFileAtomically ?env ?fs ?path (jsonText ''{'title': 'X'}'')) = Some ?e"
    by (simp add: writeFileAtomically_def Let_def d os_CreateTemp_def t' file_Write_def)
  from Write_reaches_atomic_write [OF gen j sec ens mar size a]
  have h: "fst ?w = Inl (FileError ''atomic write'' ?path ?e)"
    by simp
  then have "?w = (Inl (FileError ''atomic write'' ?path ?e), fst (snd ?w), snd (snd ?w))"
    by (metis prod.collapse)
  with failed_atomic_write_leaves_destination
         [where env = ?env and fs = ?fs and cfg = defaultConfig and p = ?p and path = ?path
            and e = ?e and p' = "fst (snd ?w)" and fs'' = "snd (snd ?w)"] r
  have "files (snd (snd ?w)) = files ?fs"
    by blast
  then have "files (snd (snd ?w)) = [?path \<mapsto> (''old'', 420)]"
    by simp
  with f m r h show ?thesis
    by (intro conjI)
qed

subsection \<open>C9: two dots inside a name\<close>

lemma IsSecurePath_ValidatePath:
  "ValidatePath wd path baseDir = Some err \<Longrightarrow> IsSecurePath U wd path baseDir = Some err"
  by (simp add: IsSecurePath_def)

lemma generated_path_contains:
  assumes "properName name" and "strings_Contains name s"
  shows "strings_Contains (filepath_Clean (filepath_Join [storage, name])) s"
proof -
  from filepath_Join_last_name [OF assms(1), of storage]
  obtain pre where pre: "pre = [] \<or> last pre = CHR ''/''"
    and j: "filepath_Join [storage, name] = pre @ name"
    by blast
  from filepath_Clean_last_name [OF assms(1) pre]
  obtain pre' where c: "filepath_Clean (pre @ name) = pre' @ name"
    by blast
  from assms(2) obtain ps ss where "name = ps @ s @ ss"
    by (auto simp: strings_Contains_def sublist_def)
  then have "pre' @ name = (pre' @ ps) @ s @ ss"
    by simp
  then have "sublist s (pre' @ name)"
    unfolding sublist_def by blast
  with j c show ?thesis
    by (simp add: strings_Contains_def)
qed

lemma not_unsafe_underscore: "\<not> unsafeChar CHR ''_''"
  by (simp add: unsafeChar_def byte_def)

lemma replaceUnsafe_not_unsafe: "c \<in> set (replaceUnsafe s) \<Longrightarrow> \<not> unsafeChar c"
proof (induction s)
  case Nil
  then show ?case by (simp add: replaceUnsafe_def)
next
  case (Cons a s)
  from Cons.prems have "c = (if unsafeChar a then CHR ''_'' else a) \<or> c \<in> set (replaceUnsafe s)"
    unfolding replaceUnsafe_def by (simp only: list.map set_simps insert_iff)
  then show ?case
    using Cons.IH not_unsafe_underscore
    by (cases "unsafeChar a") auto
qed

lemma replaceUnsafe_id: "\<forall>c \<in> set s. \<not> unsafeChar c \<Longrightarrow> replaceUnsafe s = s"
  by (induction s) (simp_all add: replaceUnsafe_def)

lemma replaceUnsafe_append: "replaceUnsafe (a @ b) = replaceUnsafe a @ replaceUnsafe b"
  by (simp add: replaceUnsafe_def)

lemma length_replaceUnsafe: "length (replaceUnsafe s) = length s"
  by (simp add: replaceUnsafe_def)

lemma enforceLength_take2: "take 2 (enforceLength s) = take 2 s"
proof (cases "length s > MaxFilenameLength")
  case False
  then show ?thesis
    by (simp add: enforceLength_def)
next
  case True
  let ?ext = "filepath_Ext s"
  show ?thesis
  proof (cases "length ?ext > 0 \<and> length ?ext < 10")
    case False
    with True have "enforceLength s = take MaxFilenameLength s"
      by (auto simp: enforceLength_def Let_def)
    then show ?thesis
      by (simp add: MaxFilenameLength_def take_take)
  next
    case ext: True
    let ?n = "nat (int MaxFilenameLength - int (length ?ext))"
    let ?m = "length s - length ?ext"
    from ext True have e: "enforceLength s = take ?n (take ?m s) @ ?ext"
      by (auto simp: enforceLength_def Let_def MaxFilenameLength_def)
    from ext True have "2 \<le> ?n" "2 \<le> ?m" "?m \<le> length s"
      by (auto simp: MaxFilenameLength_def)
    then have k: "2 \<le> min ?n ?m" "min ?n ?m \<le> length s"
      by simp_all
    have "take 2 (take ?n (take ?m s) @ ?ext) = take 2 (take (min ?n ?m) s)"
      using k by (simp add: take_take)
    also have "\<dots> = take 2 s"
      using k by (simp add: take_take min_def)
    finally show ?thesis
      by (simp add: e)
  qed
qed

lemma dots_after_other:
  assumes "x \<noteq> CHR ''.''" and "sublist ''..'' (x # w)"
  shows "sublist ''..'' w"
proof -
  from assms(2) have "prefix ''..'' (x # w) \<or> sublist ''..'' w"
    by (simp add: sublist_Cons_right)
  moreover from assms(1) have "\<not> prefix ''..'' (x # w)"
    by simp
  ultimately show ?thesis
    by blast
qed

lemma SanitizeFilename_not_unsafe:
  assumes "SanitizeFilename U filename = Inr name"
  shows "\<forall>c \<in> set name. \<not> unsafeChar c"
proof -
  define cleaned where "cleaned = strings_TrimSpace filename"
  define sanitized where
    "sanitized = strings_Trim (collapseUnderscores (replaceUnsafe cleaned)) ''_.''"
  define sanitized2 where
    "sanitized2 = (if strings_ToUpper U (beforeFirstDot sanitized) \<in> set reservedNames
                   then CHR ''_'' # sanitized else sanitized)"
  from assms have name: "name = enforceLength sanitized2"
    by (auto simp: SanitizeFilename_def Let_def cleaned_def sanitized_def sanitized2_def
             split: if_splits)
  have "\<forall>c \<in> set (replaceUnsafe cleaned). \<not> unsafeChar c"
    using replaceUnsafe_not_unsafe by blast
  then have "\<forall>c \<in> set sanitized. \<not> unsafeChar c"
    using set_collapseUnderscores set_strings_Trim unfolding sanitized_def by blast
  then have "\<forall>c \<in> set sanitized2. \<not> unsafeChar c"
    by (simp add: sanitized2_def not_unsafe_underscore)
  then show ?thesis
    using set_enforceLength [of sanitized2] unfolding name by blast
qed

lemma SanitizeFilename_dots_after_other:
  assumes "SanitizeFilename U filename = Inr t" and "sublist ''..'' t"
  shows "\<exists>u c w. t = u @ c # w \<and> c \<noteq> CHR ''_'' \<and> c \<noteq> CHR ''.'' \<and> sublist ''..'' w"
proof -
  define cleaned where "cleaned = strings_TrimSpace filename"
  define sanitized where
    "sanitized = strings_Trim (collapseUnderscores (replaceUnsafe cleaned)) ''_.''"
  define sanitized2 where
    "sanitized2 = (if strings_ToUpper U (beforeFirstDot sanitized) \<in> set reservedNames
                   then CHR ''_'' # sanitized else sanitized)"
  from assms(1) have t: "t = enforceLength sanitized2" and ne: "sanitized \<noteq> []"
    by (auto simp: SanitizeFilename_def Let_def cleaned_def sanitized_def sanitized2_def
             split: if_splits)
  from ne have "hd sanitized \<notin> set ''_.''"
    unfolding sanitized_def by (rule strings_Trim_hd)
  then have h: "hd sanitized \<noteq> CHR ''_''" "hd sanitized \<noteq> CHR ''.''"
    by simp_all
  from ne obtain c r where s: "sanitized = c # r"
    by (cases sanitized) auto
  with h have c: "c \<noteq> CHR ''_''" "c \<noteq> CHR ''.''"
    by simp_all
  show ?thesis
  proof (cases "sanitized2 = sanitized")
    case True
    with s enforceLength_hd [of sanitized2] t have "t \<noteq> []" "hd t = c"
      by simp_all
    then obtain w where w: "t = c # w"
      by (cases t) auto
    with assms(2) c(2) have "sublist ''..'' w"
      using dots_after_other by blast
    with w c have "t = [] @ c # w \<and> c \<noteq> CHR ''_'' \<and> c \<noteq> CHR ''.'' \<and> sublist ''..'' w"
      by simp
    then show ?thesis
      by blast
  next
    case False
    then have "sanitized2 = CHR ''_'' # c # r"
      by (simp add: sanitized2_def s split: if_splits)
    with enforceLength_take2 [of sanitized2] t have "take 2 t = [CHR ''_'', c]"
      by simp
    then have w: "t = CHR ''_'' # c # drop 2 t"
      by (metis append_Cons append_Nil append_take_drop_id)
    with assms(2) have "sublist ''..'' (CHR ''_'' # c # drop 2 t)"
      by simp
    then have "sublist ''..'' (c # drop 2 t)"
      by (rule dots_after_other [rotated]) simp
    with c(2) have "sublist ''..'' (drop 2 t)"
      using dots_after_other by blast
    with w c have "t = [CHR ''_''] @ c # drop 2 t \<and> c \<noteq> CHR ''_'' \<and> c \<noteq> CHR ''.''
                   \<and> sublist ''..'' (drop 2 t)"
      by simp
    then show ?thesis
      by blast
  qed
qed

lemma spaceWidth_before_ascii:
  assumes "b < 128" and "\<not> asciiSpace b"
  shows "spaceWidth (F @ b # R) \<le> length F"
proof (cases F)
  case Nil
  with assms show ?thesis
    by simp
next
  case f1: (Cons f1 F1)
  show ?thesis
  proof (cases F1)
    case Nil
    with f1 assms show ?thesis
      by (auto split: list.splits)
  next
    case f2: (Cons f2 F2)
    show ?thesis
    proof (cases F2)
      case Nil
      with f1 f2 assms show ?thesis
        by (auto split: list.splits)
    next
      case (Cons f3 F3)
      have "spaceWidth bs \<le> 3" for bs
        by (cases bs) (auto split: list.splits)
      with f1 f2 Cons show ?thesis
        by (metis add_2_eq_Suc' le_add2 length_Cons numeral_3_eq_3 order_trans Suc_le_mono le0)
    qed
  qed
qed

lemma trimLeftSpace_keeps:
  assumes "byte x < 128" and "\<not> asciiSpace (byte x)"
  shows "\<exists>F'. trimLeftSpace (F @ x # R) = F' @ x # R \<and> length F' \<le> length F"
proof (induction "length F" arbitrary: F rule: less_induct)
  case less
  define n where "n = spaceWidth (map byte (F @ x # R))"
  have n: "n \<le> length F"
    using spaceWidth_before_ascii [OF assms, of "map byte F" "map byte R"] by (simp add: n_def)
  show ?case
  proof (cases "n = 0")
    case True
    then have "trimLeftSpace (F @ x # R) = F @ x # R"
      using trimLeftSpace.simps [of "F @ x # R"] by (simp add: n_def)
    then show ?thesis
      by blast
  next
    case False
    then have "trimLeftSpace (F @ x # R) = trimLeftSpace (drop n (F @ x # R))"
      using trimLeftSpace.simps [of "F @ x # R"] by (simp add: n_def)
    also from n have "drop n (F @ x # R) = drop n F @ x # R"
      by simp
    finally have eq: "trimLeftSpace (F @ x # R) = trimLeftSpace (drop n F @ x # R)" .
    from False n have "length (drop n F) < length F"
      by simp
    from less [OF this] obtain F' where
      "trimLeftSpace (drop n F @ x # R) = F' @ x # R" "length F' \<le> length (drop n F)"
      by blast
    with eq have "trimLeftSpace (F @ x # R) = F' @ x # R \<and> length F' \<le> length F"
      by simp
    then show ?thesis
      by blast
  qed
qed

lemma strings_TrimSpace_keeps:
  assumes "byte x < 128" and "\<not> asciiSpace (byte x)"
  shows "\<exists>F'. strings_TrimSpace (F @ x # R @ ''.json'') = F' @ x # R @ ''.json''
              \<and> length F' \<le> length F"
proof -
  from trimLeftSpace_keeps [OF assms, of F "R @ ''.json''"]
  obtain F' where l: "trimLeftSpace (F @ x # R @ ''.json'') = F' @ x # R @ ''.json''"
    and len: "length F' \<le> length F"
    by blast
  let ?r = "rev (F' @ x # R @ ''.json'')"
  have r: "?r = CHR ''n'' # rev (F' @ x # R @ ''.jso'')"
    by simp
  have "spaceWidthRev (map byte (CHR ''n'' # rev (F' @ x # R @ ''.jso''))) = 0"
    by (simp add: byte_def asciiSpace_def)
  then have "spaceWidthRev (map byte ?r) = 0"
    by (simp only: r)
  then have "trimRightSpaceRev ?r = ?r"
    using trimRightSpaceRev.simps [of ?r] by (simp only: refl if_True)
  then have "rev (trimRightSpaceRev ?r) = F' @ x # R @ ''.json''"
    by (simp only: rev_rev_ident)
  with l have "strings_TrimSpace (F @ x # R @ ''.json'') = F' @ x # R @ ''.json''"
    by (simp only: strings_TrimSpace_def)
  with len show ?thesis
    by blast
qed

lemma length_collapseUnderscores: "length (collapseUnderscores s) \<le> length s"
  by (induction s rule: collapseUnderscores.induct) auto

lemma collapseUnderscores_Cons:
  "c \<noteq> CHR ''_'' \<Longrightarrow> collapseUnderscores (c # R) = c # collapseUnderscores R"
  by (cases R) simp_all

lemma collapseUnderscores_append:
  assumes "c \<noteq> CHR ''_''"
  shows "\<exists>P'. collapseUnderscores (P @ c # R) = P' @ c # collapseUnderscores R
              \<and> length P' \<le> length P"
proof (induction P rule: collapseUnderscores.induct)
  case 1
  from assms have "collapseUnderscores ([] @ c # R) = [] @ c # collapseUnderscores R"
    by (simp add: collapseUnderscores_Cons)
  then show ?case
    by (metis le_refl)
next
  case (2 x)
  from assms have "collapseUnderscores ([x] @ c # R) = [x] @ c # collapseUnderscores R"
    by (simp add: collapseUnderscores_Cons)
  then show ?case
    by (metis le_refl)
next
  case (3 x y s)
  then obtain P' where p: "collapseUnderscores ((y # s) @ c # R) = P' @ c # collapseUnderscores R"
    and l: "length P' \<le> length (y # s)"
    by blast
  show ?case
  proof (cases "x = CHR ''_'' \<and> y = CHR ''_''")
    case True
    with p have "collapseUnderscores ((x # y # s) @ c # R) = P' @ c # collapseUnderscores R"
      by simp
    moreover from l have "length P' \<le> length (x # y # s)"
      by simp
    ultimately show ?thesis
      by blast
  next
    case False
    with p have "collapseUnderscores ((x # y # s) @ c # R) = (x # P') @ c # collapseUnderscores R"
      by auto
    moreover from l have "length (x # P') \<le> length (x # y # s)"
      by simp
    ultimately show ?thesis
      by blast
  qed
qed

lemma collapseUnderscores_keeps_dots:
  assumes "sublist ''..'' M"
  shows "\<exists>M'. collapseUnderscores (M @ ''n'') = M' @ ''n'' \<and> sublist ''..'' M'"
proof -
  from assms obtain a b where M: "M = a @ ''..'' @ b"
    by (auto simp: sublist_def)
  have d: "CHR ''.'' \<noteq> CHR ''_''" and n: "CHR ''n'' \<noteq> CHR ''_''"
    by simp_all
  from collapseUnderscores_append [OF d, of a "CHR ''.'' # b @ ''n''"]
  obtain a' where 1: "collapseUnderscores (a @ CHR ''.'' # CHR ''.'' # b @ ''n'')
                        = a' @ CHR ''.'' # collapseUnderscores (CHR ''.'' # b @ ''n'')"
    by blast
  have 2: "collapseUnderscores (CHR ''.'' # b @ ''n'') = CHR ''.'' # collapseUnderscores (b @ ''n'')"
    using d by (rule collapseUnderscores_Cons)
  from collapseUnderscores_append [OF n, of b "[]"]
  obtain b' where 3: "collapseUnderscores (b @ ''n'') = b' @ ''n''"
    by auto
  from 1 2 3 have "collapseUnderscores (M @ ''n'') = (a' @ ''..'' @ b') @ ''n''"
    by (simp add: M)
  moreover have "sublist ''..'' (a' @ ''..'' @ b')"
    by (rule sublist_appendI)
  ultimately show ?thesis
    by blast
qed

lemma collapseUnderscores_keeps:
  assumes "c \<noteq> CHR ''_''" and "sublist ''..'' M"
  shows "\<exists>P' M'. collapseUnderscores (P @ c # M @ ''n'') = P' @ c # M' @ ''n''
                 \<and> sublist ''..'' M'"
proof -
  from collapseUnderscores_append [OF assms(1), of P "M @ ''n''"]
  obtain P' where "collapseUnderscores (P @ c # M @ ''n'') = P' @ c # collapseUnderscores (M @ ''n'')"
    by blast
  moreover from collapseUnderscores_keeps_dots [OF assms(2)]
  obtain M' where "collapseUnderscores (M @ ''n'') = M' @ ''n''" "sublist ''..'' M'"
    by blast
  ultimately have "collapseUnderscores (P @ c # M @ ''n'') = P' @ c # M' @ ''n'' \<and> sublist ''..'' M'"
    by simp
  then show ?thesis
    by blast
qed

lemma dropWhile_keeps:
  assumes "\<not> Q c"
  shows "\<exists>P'. dropWhile Q (P @ c # R) = P' @ c # R"
proof (cases "\<forall>x \<in> set P. Q x")
  case True
  with assms have "dropWhile Q (P @ c # R) = [] @ c # R"
    by (simp add: dropWhile_append)
  then show ?thesis
    by blast
next
  case False
  then obtain x where "x \<in> set P" "\<not> Q x"
    by blast
  then have "dropWhile Q (P @ c # R) = dropWhile Q P @ c # R"
    by (rule dropWhile_append1)
  then show ?thesis
    by blast
qed

lemma strings_Trim_keeps:
  assumes "c \<notin> set cs" and "n \<notin> set cs"
  shows "\<exists>P'. strings_Trim (P @ c # M @ [n]) cs = P' @ c # M @ [n]"
proof -
  let ?Q = "\<lambda>c. c \<in> set cs"
  from dropWhile_keeps [of ?Q c P "M @ [n]"] assms(1)
  obtain P' where l: "dropWhile ?Q (P @ c # M @ [n]) = P' @ c # M @ [n]"
    by blast
  have "rev (P' @ c # M @ [n]) = n # rev (P' @ c # M)"
    by simp
  with assms(2) have "dropWhile ?Q (rev (P' @ c # M @ [n])) = rev (P' @ c # M @ [n])"
    by (simp only: dropWhile.simps if_False)
  with l have "strings_Trim (P @ c # M @ [n]) cs = P' @ c # M @ [n]"
    by (simp only: strings_Trim_def rev_rev_ident)
  then show ?thesis
    by blast
qed

lemma length_strings_Trim: "length (strings_Trim s cs) \<le> length s"
proof -
  have "length (dropWhile Q xs) \<le> length xs" for Q and xs :: string
    by (induction xs) auto
  from this [of "\<lambda>c. c \<in> set cs" "rev (dropWhile (\<lambda>c. c \<in> set cs) s)"]
       this [of "\<lambda>c. c \<in> set cs" s]
  show ?thesis
    by (simp add: strings_Trim_def)
qed

text \<open>
  The name that \<^verbatim>\<open>generateSecureFilename\<close> composes is \<open>F_I_t.json\<close>, with the
  formatted time \<open>F\<close>, the identifier \<open>I\<close> and the sanitized title \<open>t\<close>. When it
  is valid UTF-8 and shorter than the limit, \<^verbatim>\<open>SanitizeFilename\<close> accepts it and
  two dots in a row in \<open>t\<close> are still in the result: the white space is trimmed
  before the first underscore, no character of \<open>t\<close> is replaced, the dots are not
  underscores, the trimming of underscores and dots stops before them at a character
  of \<open>t\<close> and after them at the extension, and nothing is cut.
\<close>

lemma SanitizeFilename_keeps_dots:
  fixes F I t u w :: string and c :: char
  defines "X \<equiv> F @ ''_'' @ I @ ''_'' @ t @ ''.json''"
  assumes valid: "utf8_ValidString X"
    and safe: "\<forall>c \<in> set t. \<not> unsafeChar c"
    and t: "t = u @ c # w"
    and c: "c \<noteq> CHR ''_''" "c \<noteq> CHR ''.''"
    and w: "sublist ''..'' w"
    and len: "length X < MaxFilenameLength"
  shows "\<exists>name. SanitizeFilename U X = Inr name \<and> sublist ''..'' name"
proof -
  have X: "X = F @ CHR ''_'' # (I @ CHR ''_'' # t) @ ''.json''"
    by (simp add: X_def)
  have us: "byte (CHR ''_'') < 128" "\<not> asciiSpace (byte (CHR ''_''))"
    by (simp_all add: byte_def asciiSpace_def)
  from strings_TrimSpace_keeps [OF us, of F "I @ CHR ''_'' # t"]
  obtain F' where ts: "strings_TrimSpace X = F' @ CHR ''_'' # (I @ CHR ''_'' # t) @ ''.json''"
    and lF: "length F' \<le> length F"
    unfolding X by blast
  define C where "C = strings_TrimSpace X"
  define Q where "Q = F' @ CHR ''_'' # I @ CHR ''_'' # u"
  from ts have C: "C = Q @ (c # w @ ''.json'')"
    by (simp add: C_def Q_def t)
  from ts lF have lC: "length C \<le> length X"
    by (simp add: C_def X)
  have "\<forall>x \<in> set ''.json''. \<not> unsafeChar x"
    by (simp add: unsafeChar_def byte_def)
  with safe have "\<forall>x \<in> set (c # w @ ''.json''). \<not> unsafeChar x"
    by (simp add: t)
  then have "replaceUnsafe (c # w @ ''.json'') = c # w @ ''.json''"
    by (rule replaceUnsafe_id)
  then have R: "replaceUnsafe C = replaceUnsafe Q @ c # (w @ ''.jso'') @ ''n''"
    by (simp add: C replaceUnsafe_append)
  from w have "sublist ''..'' (w @ ''.jso'')"
    by (metis sublist_append)
  from collapseUnderscores_keeps [OF c(1) this, of "replaceUnsafe Q"]
  obtain P1 M1 where K: "collapseUnderscores (replaceUnsafe C) = P1 @ c # M1 @ ''n''"
    and M1: "sublist ''..'' M1"
    unfolding R by blast
  have "c \<notin> set ''_.''" "CHR ''n'' \<notin> set ''_.''"
    using c by simp_all
  from strings_Trim_keeps [OF this, of P1 M1]
  obtain P2 where T: "strings_Trim (collapseUnderscores (replaceUnsafe C)) ''_.'' = P2 @ c # M1 @ ''n''"
    unfolding K by blast
  define S where "S = strings_Trim (collapseUnderscores (replaceUnsafe C)) ''_.''"
  from T have S: "S = P2 @ c # M1 @ ''n''"
    by (simp add: S_def)
  have "length S \<le> length (collapseUnderscores (replaceUnsafe C))"
    unfolding S_def by (rule length_strings_Trim)
  also have "\<dots> \<le> length (replaceUnsafe C)"
    by (rule length_collapseUnderscores)
  also have "\<dots> = length C"
    by (rule length_replaceUnsafe)
  finally have lS: "length S \<le> length X"
    using lC by simp
  define S2 where "S2 = (if strings_ToUpper U (beforeFirstDot S) \<in> set reservedNames
                         then CHR ''_'' # S else S)"
  from lS len have "\<not> length S2 > MaxFilenameLength"
    by (simp add: S2_def)
  then have E: "enforceLength S2 = S2"
    by (simp add: enforceLength_def)
  from S have "S \<noteq> []" "C \<noteq> []" "X \<noteq> []"
    by (simp_all add: C X)
  with valid E have r: "SanitizeFilename U X = Inr S2"
    by (simp add: SanitizeFilename_def Let_def C_def [symmetric] S_def [symmetric]
          S2_def [symmetric])
  from M1 have "sublist ''..'' (P2 @ c # M1 @ ''n'')"
    by (metis sublist_append sublist_Cons_right)
  then have "sublist ''..'' S"
    by (simp add: S)
  then have "sublist ''..'' S2"
    by (simp add: S2_def sublist_Cons_right)
  with r show ?thesis
    by blast
qed

lemma generateSecureFilename_keeps_dots:
  assumes "SanitizeFilename (tables env) (Title q) = Inr t"
    and "strings_Contains t ''..''"
    and "utf8_ValidString (formatTime env (Timestamp q) @ ''_'' @ ID q @ ''_'' @ t @ ''.json'')"
    and "length (formatTime env (Timestamp q) @ ''_'' @ ID q @ ''_'' @ t @ ''.json'')
           < MaxFilenameLength"
  shows "\<exists>name. generateSecureFilename env q = Inr name \<and> strings_Contains name ''..''"
proof -
  from assms(2) have d: "sublist ''..'' t"
    by (simp add: strings_Contains_def)
  from SanitizeFilename_dots_after_other [OF assms(1) d]
  obtain u c w where t: "t = u @ c # w" and c: "c \<noteq> CHR ''_''" "c \<noteq> CHR ''.''"
    and w: "sublist ''..'' w"
    by blast
  from SanitizeFilename_not_unsafe [OF assms(1)] have safe: "\<forall>c \<in> set t. \<not> unsafeChar c" .
  from SanitizeFilename_keeps_dots [OF assms(3) safe t c w assms(4), of "tables env"]
  obtain name where
    "SanitizeFilename (tables env)
       (formatTime env (Timestamp q) @ ''_'' @ ID q @ ''_'' @ t @ ''.json'') = Inr name"
    and "sublist ''..'' name"
    by blast
  with assms(1) have "generateSecureFilename env q = Inr name \<and> strings_Contains name ''..''"
    by (simp add: generateSecureFilename_def Let_def strings_Contains_def)
  then show ?thesis
    by blast
qed

lemma Title_after_metadata: "Title (SetTimestamp env (GenerateID env p)) = Title p"
  by (simp add: SetTimestamp_def GenerateID_def)

text \<open>
  Claim C9, as amended. \<^verbatim>\<open>ValidatePath\<close> refuses every path whose cleaned form
  contains two consecutive dots anywhere, also inside a file name, and so does
  \<^verbatim>\<open>IsSecurePath\<close>; the error is the path-traversal error when the path is not
  empty, holds no NUL byte and is at most 4096 bytes long (these three checks come
  first and have errors of their own). Consequently \<^verbatim>\<open>FileStoreImpl.Write\<close> fails
  with a path-validation error, and changes nothing in the file system, whenever the
  file name that \<^verbatim>\<open>generateSecureFilename\<close> returns contains two consecutive dots;
  and this is the case for every payload whose sanitized title contains two consecutive
  dots, provided the name composed of the formatted time, the identifier and the
  sanitized title is valid UTF-8 and shorter than 255 bytes (the payload is taken with
  the identifier and timestamp that \<^verbatim>\<open>Write\<close> has set where they were missing).
\<close>

theorem dotdot_inside_name_rejected:
  "(strings_Contains (filepath_Clean path) ''..'' \<longrightarrow>
      ValidatePath wd path baseDir \<noteq> None \<and> IsSecurePath U wd path baseDir \<noteq> None
      \<and> (path \<noteq> [] \<and> \<not> strings_Contains path [CHR 0x00] \<and> length path \<le> MaxPathLength \<longrightarrow>
           ValidatePath wd path baseDir = Some ErrPathTraversal
           \<and> IsSecurePath U wd path baseDir = Some ErrPathTraversal))
   \<and> (generateSecureFilename env (SetTimestamp env (GenerateID env p)) = Inr name
        \<and> strings_Contains name ''..'' \<longrightarrow>
        (\<exists>e. Write cfg env fs (Some p)
               = (Inl (FileError ''path validation'' (filepath_Join [StoragePath cfg, name]) e),
                  Some (SetTimestamp env (GenerateID env p)), fs)))
   \<and> (SanitizeFilename (tables env) (Title p) = Inr t \<and> strings_Contains t ''..''
        \<and> utf8_ValidString
             (formatTime env (Timestamp (SetTimestamp env (GenerateID env p))) @ ''_''
              @ ID (SetTimestamp env (GenerateID env p)) @ ''_'' @ t @ ''.json'')
        \<and> length (formatTime env (Timestamp (SetTimestamp env (GenerateID env p))) @ ''_''
                   @ ID (SetTimestamp env (GenerateID env p)) @ ''_'' @ t @ ''.json'')
            < MaxFilenameLength \<longrightarrow>
        (\<exists>generated e.
            generateSecureFilename env (SetTimestamp env (GenerateID env p)) = Inr generated
            \<and> strings_Contains generated ''..''
            \<and> Write cfg env fs (Some p)
                = (Inl (FileError ''path validation''
                          (filepath_Join [StoragePath cfg, generated]) e),
                   Some (SetTimestamp env (GenerateID env p)), fs)))"
proof -
  let ?q = "SetTimestamp env (GenerateID env p)"
  have file_name: "\<exists>e. Write cfg env fs (Some p)
               = (Inl (FileError ''path validation'' (filepath_Join [StoragePath cfg, n]) e),
                  Some ?q, fs)"
    if a: "generateSecureFilename env ?q = Inr n" and b: "strings_Contains n ''..''" for n
  proof -
    let ?path = "filepath_Join [StoragePath cfg, n]"
    from a have "properName n"
      by (rule generateSecureFilename_properName)
    with b have "strings_Contains (filepath_Clean ?path) ''..''"
      by (simp add: generated_path_contains)
    then obtain err where "ValidatePath (getwd env) ?path (StoragePath cfg) = Some err"
      using ValidatePath_contains_dotdot_fails [of ?path "getwd env" "StoragePath cfg"] by blast
    then have "IsSecurePath (tables env) (getwd env) ?path (StoragePath cfg) = Some err"
      by (rule IsSecurePath_ValidatePath)
    with a have "Write cfg env fs (Some p)
                   = (Inl (FileError ''path validation'' ?path err), Some ?q, fs)"
      by (simp add: Write_path_validation)
    then show ?thesis
      by blast
  qed
  show ?thesis
  proof (intro conjI impI)
    assume a: "strings_Contains (filepath_Clean path) ''..''"
    then obtain err where v: "ValidatePath wd path baseDir = Some err"
      using ValidatePath_contains_dotdot_fails [of path wd baseDir] by blast
    then show "ValidatePath wd path baseDir \<noteq> None"
      by simp
    from v show "IsSecurePath U wd path baseDir \<noteq> None"
      by (simp add: IsSecurePath_ValidatePath)
    assume b: "path \<noteq> [] \<and> \<not> strings_Contains path [CHR 0x00] \<and> length path \<le> MaxPathLength"
    with a show t: "ValidatePath wd path baseDir = Some ErrPathTraversal"
      by (simp add: ValidatePath_contains_dotdot)
    then show "IsSecurePath U wd path baseDir = Some ErrPathTraversal"
      by (rule IsSecurePath_ValidatePath)
  next
    assume "generateSecureFilename env ?q = Inr name \<and> strings_Contains name ''..''"
    then show "\<exists>e. Write cfg env fs (Some p)
                 = (Inl (FileError ''path validation'' (filepath_Join [StoragePath cfg, name]) e),
                    Some ?q, fs)"
      using file_name by blast
  next
    let ?X = "formatTime env (Timestamp ?q) @ ''_'' @ ID ?q @ ''_'' @ t @ ''.json''"
    assume a: "SanitizeFilename (tables env) (Title p) = Inr t \<and> strings_Contains t ''..''
               \<and> utf8_ValidString ?X \<and> length ?X < MaxFilenameLength"
    then have "SanitizeFilename (tables env) (Title ?q) = Inr t"
      by (simp only: Title_after_metadata)
    from generateSecureFilename_keeps_dots [OF this] a
    obtain generated where g: "generateSecureFilename env ?q = Inr generated"
      and d: "strings_Contains generated ''..''"
      by blast
    from file_name [OF g d] g d
    show "\<exists>generated e.
            generateSecureFilename env ?q = Inr generated
            \<and> strings_Contains generated ''..''
            \<and> Write cfg env fs (Some p)
                = (Inl (FileError ''path validation''
                          (filepath_Join [StoragePath cfg, generated]) e),
                   Some ?q, fs)"
      by blast
  qed
qed

text \<open>
  The witness: \<^verbatim>\<open>report..txt\<close> has no \<^verbatim>\<open>..\<close> segment and stays under the base
  directory, and it is refused; and a payload with that title, whose file name is
  \<^verbatim>\<open>2025-11-03_10-00-00_id1_report..txt.json\<close>, is not written.
\<close>

theorem dotdot_inside_name_rejected_witness:
  "strings_Contains (filepath_Clean ''report..txt'') ''..''
   \<and> ''..'' \<notin> set (splitSep ''report..txt'')
   \<and> ''report..txt'' \<noteq> [] \<and> \<not> strings_Contains ''report..txt'' [CHR 0x00]
   \<and> length ''report..txt'' \<le> MaxPathLength
   \<and> ValidatePath (Inr ''/srv/app'') ''report..txt'' ''/safe/storage'' = Some ErrPathTraversal
   \<and> IsSecurePath asciiOnly (Inr ''/srv/app'') ''report..txt'' ''/safe/storage''
       = Some ErrPathTraversal
   \<and> SanitizeFilename (tables exampleEnv)
        (Title (simplePayload\<lparr>Title := ''report..txt'', ID := ''id1'', Timestamp := 42\<rparr>))
       = Inr ''report..txt''
   \<and> strings_Contains ''report..txt'' ''..''
   \<and> utf8_ValidString ''2025-11-03_10-00-00_id1_report..txt.json''
   \<and> length ''2025-11-03_10-00-00_id1_report..txt.json'' < MaxFilenameLength
   \<and> generateSecureFilename exampleEnv
        (SetTimestamp exampleEnv (GenerateID exampleEnv
           (simplePayload\<lparr>Title := ''report..txt'', ID := ''id1'', Timestamp := 42\<rparr>)))
       = Inr ''2025-11-03_10-00-00_id1_report..txt.json''
   \<and> strings_Contains ''2025-11-03_10-00-00_id1_report..txt.json'' ''..''
   \<and> (\<exists>e. Write defaultConfig exampleEnv emptyDisk
              (Some (simplePayload\<lparr>Title := ''report..txt'', ID := ''id1'', Timestamp := 42\<rparr>))
            = (Inl (FileError ''path validation''
                      ''storage/2025-11-03_10-00-00_id1_report..txt.json'' e),
               Some (simplePayload\<lparr>Title := ''report..txt'', ID := ''id1'', Timestamp := 42\<rparr>),
               emptyDisk))"
proof -
  let ?p = "simplePayload\<lparr>Title := ''report..txt'', ID := ''id1'', Timestamp := 42\<rparr>"
  let ?name = "''2025-11-03_10-00-00_id1_report..txt.json''"
  have a: "strings_Contains (filepath_Clean ''report..txt'') ''..''"
    by code_simp
  have s: "''..'' \<notin> set (splitSep ''report..txt'')"
    by code_simp
  have b: "''report..txt'' \<noteq> []"
    by simp
  have c: "\<not> strings_Contains ''report..txt'' [CHR 0x00]"
    by code_simp
  have d: "length ''report..txt'' \<le> MaxPathLength"
    by (simp add: MaxPathLength_def)
  have q: "SetTimestamp exampleEnv (GenerateID exampleEnv ?p) = ?p"
    by (simp add: SetTimestamp_def GenerateID_def IsZero_def)
  have st: "SanitizeFilename (tables exampleEnv) (Title ?p) = Inr ''report..txt''"
    by code_simp
  have ct: "strings_Contains ''report..txt'' ''..''"
    by code_simp
  have f: "formatTime exampleEnv (Timestamp ?p) @ ''_'' @ ID ?p @ ''_'' @ ''report..txt'' @ ''.json''
             = ?name"
    by (simp add: exampleEnv_def)
  have u: "utf8_ValidString ?name"
    by code_simp
  have l: "length ?name < MaxFilenameLength"
    by (simp add: MaxFilenameLength_def)
  have "generateSecureFilename exampleEnv ?p = Inr ?name"
    by code_simp
  then have g: "generateSecureFilename exampleEnv (SetTimestamp exampleEnv (GenerateID exampleEnv ?p))
                  = Inr ?name"
    by (simp only: q)
  have n: "strings_Contains ?name ''..''"
    by code_simp
  have j: "filepath_Join [StoragePath defaultConfig, ?name]
             = ''storage/2025-11-03_10-00-00_id1_report..txt.json''"
    by code_simp
  note inst = dotdot_inside_name_rejected
               [where path = "''report..txt''" and wd = "Inr ''/srv/app''"
                  and baseDir = "''/safe/storage''" and U = asciiOnly and env = exampleEnv
                  and p = ?p and name = ?name and cfg = defaultConfig and fs = emptyDisk
                  and t = "''report..txt''"]
  from inst a b c d
  have v: "ValidatePath (Inr ''/srv/app'') ''report..txt'' ''/safe/storage'' = Some ErrPathTraversal"
    by blast
  from inst a b c d
  have i: "IsSecurePath asciiOnly (Inr ''/srv/app'') ''report..txt'' ''/safe/storage''
             = Some ErrPathTraversal"
    by blast
  from u l have "utf8_ValidString
                   (formatTime exampleEnv (Timestamp (SetTimestamp exampleEnv (GenerateID exampleEnv ?p)))
                    @ ''_'' @ ID (SetTimestamp exampleEnv (GenerateID exampleEnv ?p)) @ ''_''
                    @ ''report..txt'' @ ''.json'')"
    and "length (formatTime exampleEnv (Timestamp (SetTimestamp exampleEnv (GenerateID exampleEnv ?p)))
                 @ ''_'' @ ID (SetTimestamp exampleEnv (GenerateID exampleEnv ?p)) @ ''_''
                 @ ''report..txt'' @ ''.json'') < MaxFilenameLength"
    by (simp_all only: q f)
  with inst st ct
  have "\<exists>generated e.
          generateSecureFilename exampleEnv (SetTimestamp exampleEnv (GenerateID exampleEnv ?p))
            = Inr generated
          \<and> strings_Contains generated ''..''
          \<and> Write defaultConfig exampleEnv emptyDisk (Some ?p)
              = (Inl (FileError ''path validation''
                        (filepath_Join [StoragePath defaultConfig, generated]) e),
                 Some (SetTimestamp exampleEnv (GenerateID exampleEnv ?p)), emptyDisk)"
    by blast
  then obtain generated e where
    gg: "generateSecureFilename exampleEnv (SetTimestamp exampleEnv (GenerateID exampleEnv ?p))
           = Inr generated"
    and ww: "Write defaultConfig exampleEnv emptyDisk (Some ?p)
               = (Inl (FileError ''path validation''
                         (filepath_Join [StoragePath defaultConfig, generated]) e),
                  Some (SetTimestamp exampleEnv (GenerateID exampleEnv ?p)), emptyDisk)"
    by blast
  from gg g have gn: "generated = ?name"
    by simp
  from ww have "Write defaultConfig exampleEnv emptyDisk (Some ?p)
                 = (Inl (FileError ''path validation''
                           ''storage/2025-11-03_10-00-00_id1_report..txt.json'' e),
                    Some ?p, emptyDisk)"
    by (simp only: gn j q)
  then have w: "\<exists>e. Write defaultConfig exampleEnv emptyDisk (Some ?p)
                      = (Inl (FileError ''path validation''
                                ''storage/2025-11-03_10-00-00_id1_report..txt.json'' e),
                         Some ?p, emptyDisk)"
    by blast
  from a s b c d v i st ct u l g n w show ?thesis
    by (intro conjI)
qed

text \<open>
  The claim as it stands speaks of every payload whose sanitized title contains
  consecutive dots. The title does not always reach the file name. When the name
  composed of timestamp, identifier and title is not valid UTF-8, here because of the
  identifier, \<^verbatim>\<open>SanitizeFilename\<close> refuses it and \<^verbatim>\<open>generateSecureFilename\<close> falls
  back on a random name. When the composed name is longer than 255 bytes, here because
  of an identifier of 230 bytes, \<^verbatim>\<open>SanitizeFilename\<close> cuts it to the first 250 bytes
  and the extension, and the title is cut off. In both cases \<^verbatim>\<open>Write\<close> stores the
  payload.
\<close>

theorem title_with_dots_written_counterexample:
  "SanitizeFilename asciiOnly ''report..txt'' = Inr ''report..txt''
   \<and> strings_Contains ''report..txt'' ''..''
   \<and> \<not> utf8_ValidString (''2025-11-03_10-00-00_'' @ [CHR 0xFF] @ ''_report..txt.json'')
   \<and> generateSecureFilename exampleEnv
        (simplePayload\<lparr>Title := ''report..txt'', ID := [CHR 0xFF], Timestamp := 42\<rparr>)
       = Inr ''webhook_0101010101010101.json''
   \<and> fst (Write defaultConfig exampleEnv emptyDisk
            (Some (simplePayload\<lparr>Title := ''report..txt'', ID := [CHR 0xFF], Timestamp := 42\<rparr>)))
       = Inr ''storage/webhook_0101010101010101.json''
   \<and> utf8_ValidString
        (''2025-11-03_10-00-00_'' @ replicate 230 (CHR ''x'') @ ''_report..txt.json'')
   \<and> length (''2025-11-03_10-00-00_'' @ replicate 230 (CHR ''x'') @ ''_report..txt.json'') = 267
   \<and> generateSecureFilename exampleEnv
        (simplePayload\<lparr>Title := ''report..txt'', ID := replicate 230 (CHR ''x''),
                        Timestamp := 42\<rparr>)
       = Inr (''2025-11-03_10-00-00_'' @ replicate 230 (CHR ''x'') @ ''.json'')
   \<and> fst (Write defaultConfig exampleEnv emptyDisk
            (Some (simplePayload\<lparr>Title := ''report..txt'', ID := replicate 230 (CHR ''x''),
                                  Timestamp := 42\<rparr>)))
       = Inr (''storage/2025-11-03_10-00-00_'' @ replicate 230 (CHR ''x'') @ ''.json'')"
proof -
  let ?p = "simplePayload\<lparr>Title := ''report..txt'', ID := [CHR 0xFF], Timestamp := 42\<rparr>"
  let ?name = "''webhook_0101010101010101.json''"
  let ?path = "''storage/webhook_0101010101010101.json''"
  let ?p2 = "simplePayload\<lparr>Title := ''report..txt'', ID := replicate 230 (CHR ''x''),
                            Timestamp := 42\<rparr>"
  let ?name2 = "''2025-11-03_10-00-00_'' @ replicate 230 (CHR ''x'') @ ''.json''"
  let ?path2 = "''storage/2025-11-03_10-00-00_'' @ replicate 230 (CHR ''x'') @ ''.json''"
  let ?fs = "emptyDisk\<lparr>dirs := {''storage''}\<rparr>"
  have a: "SanitizeFilename asciiOnly ''report..txt'' = Inr ''report..txt''"
    by code_simp
  have b: "strings_Contains ''report..txt'' ''..''"
    by code_simp
  have v1: "\<not> utf8_ValidString (''2025-11-03_10-00-00_'' @ [CHR 0xFF] @ ''_report..txt.json'')"
    by code_simp
  have v2: "utf8_ValidString
              (''2025-11-03_10-00-00_'' @ replicate 230 (CHR ''x'') @ ''_report..txt.json'')"
    by code_simp
  have l2: "length (''2025-11-03_10-00-00_'' @ replicate 230 (CHR ''x'') @ ''_report..txt.json'')
              = 267"
    by simp
  have q: "SetTimestamp exampleEnv (GenerateID exampleEnv ?p) = ?p"
    by (simp add: SetTimestamp_def GenerateID_def IsZero_def)
  have q2: "SetTimestamp exampleEnv (GenerateID exampleEnv ?p2) = ?p2"
    by (simp add: SetTimestamp_def GenerateID_def IsZero_def)
  have g: "generateSecureFilename exampleEnv ?p = Inr ?name"
    by code_simp
  then have gen: "generateSecureFilename exampleEnv (SetTimestamp exampleEnv (GenerateID exampleEnv ?p))
                    = Inr ?name"
    by (simp only: q)
  have g2: "generateSecureFilename exampleEnv ?p2 = Inr ?name2"
    by code_simp
  then have gen2: "generateSecureFilename exampleEnv
                     (SetTimestamp exampleEnv (GenerateID exampleEnv ?p2)) = Inr ?name2"
    by (simp only: q2)
  have j: "filepath_Join [StoragePath defaultConfig, ?name] = ?path"
    by code_simp
  have j2: "filepath_Join [StoragePath defaultConfig, ?name2] = ?path2"
    by code_simp
  have sec: "IsSecurePath (tables exampleEnv) (getwd exampleEnv) ?path (StoragePath defaultConfig) = None"
    by code_simp
  have sec2: "IsSecurePath (tables exampleEnv) (getwd exampleEnv) ?path2 (StoragePath defaultConfig)
                = None"
    by code_simp
  have d: "filepath_Dir ?path = ''storage''"
    by code_simp
  have d2: "filepath_Dir ?path2 = ''storage''"
    by code_simp
  have vp: "ValidatePath (getwd exampleEnv) ''storage'' [] = None"
    by code_simp
  have an: "ancestors ''storage'' = []"
    by code_simp
  from vp an have ens: "ensureDirectoryExists exampleEnv emptyDisk (filepath_Dir ?path) = (None, ?fs)"
    by (simp add: d ensureDirectoryExists_def os_Stat_def os_MkdirAll_def emptyDisk_def exampleEnv_def)
  from vp an have ens2: "ensureDirectoryExists exampleEnv emptyDisk (filepath_Dir ?path2) = (None, ?fs)"
    by (simp only: d2) (simp add: ensureDirectoryExists_def os_Stat_def os_MkdirAll_def
          emptyDisk_def exampleEnv_def)
  have mar: "marshalIndent exampleEnv = Inr (jsonText ''{'title': 'X'}'')"
    by (simp add: exampleEnv_def)
  have size: "int (length (jsonText ''{'title': 'X'}'')) \<le> MaxFileSize defaultConfig"
    by (simp add: jsonText_def defaultConfig_def)
  have t: "tempName exampleEnv ''storage'' = ''storage/.tmp-webhook-305''"
    by code_simp
  have f: "fails exampleEnv = (\<lambda>c. False)"
    by (simp add: exampleEnv_def)
  have w: "fst (writeFileAtomically exampleEnv ?fs ?path (jsonText ''{'title': 'X'}'')) = None"
    by (simp add: writeFileAtomically_def Let_def d os_CreateTemp_def t file_Write_def f
          file_Sync_def file_Close_def os_Chmod_def os_Rename_def emptyDisk_def)
  have w2: "fst (writeFileAtomically exampleEnv ?fs ?path2 (jsonText ''{'title': 'X'}'')) = None"
    unfolding writeFileAtomically_def Let_def d2
    by (simp add: Let_def os_CreateTemp_def t file_Write_def f file_Sync_def file_Close_def
          os_Chmod_def os_Rename_def emptyDisk_def)
  from Write_reaches_atomic_write [OF gen j sec ens mar size w]
  have r: "fst (Write defaultConfig exampleEnv emptyDisk (Some ?p)) = Inr ?path"
    by simp
  from Write_reaches_atomic_write [OF gen2 j2 sec2 ens2 mar size w2]
  have r2: "fst (Write defaultConfig exampleEnv emptyDisk (Some ?p2)) = Inr ?path2"
    by (simp only: option.case)
  from a b v1 g r v2 l2 g2 r2 show ?thesis
    by (intro conjI)
qed

end
